theory Spec2Isabelle
  imports Complex_Main
begin

section \<open>Data model\<close>

text \<open>
  A value of type \<open>string\<close> is a character list, an optional field or a \<open>T | null\<close>
  state is an \<open>option\<close>, a string-literal union is a datatype. Counters are JavaScript
  numbers that only ever hold small non-negative integers; they are modelled as \<open>int\<close>.

  An \<open>AnalysisResult\<close> is what \<open>JSON.parse\<close> gave for the answer of the service, cast
  without a check, so any of its fields can be missing; the code itself parses the text
  \<open>{}\<close> when the answer is empty. A missing field is \<open>None\<close>. The field
  \<open>isQualitySufficient\<close> is only ever tested for truthiness: the record holds that truth
  value, which is false for a missing field.
\<close>

datatype JsError = JsError string

definition typeError :: JsError where
  "typeError = JsError ''TypeError''"

datatype Severity = Low | Medium | High | Critical

record AnalysisResult =
  defectType :: "string option"
  severity :: "Severity option"
  confidence :: "rat option"
  instructions :: "string option"
  isQualitySufficient :: bool
  missingAngles :: "string list option"

datatype ItemStatus = Pending | Approved

record Metadata =
  machineId :: string
  component :: string
  location :: string

record CapturedItem =
  item_id :: string
  timestamp :: nat
  imageUrl :: string
  annotatedImageUrl :: "string option"
  analysis :: "AnalysisResult option"
  status :: ItemStatus
  metadata :: Metadata

datatype GoalStatus = Active | AtRisk | Complete

record ProjectGoal =
  goal_id :: string
  title :: string
  targetCount :: int
  currentCount :: int
  deadline :: string
  goal_status :: GoalStatus
  description :: string

section \<open>String primitives of the runtime\<close>

text \<open>
  \<open>String.prototype.toLowerCase\<close> on the ASCII range. Outside ASCII the bytes are left
  alone; no character outside ASCII lower-cases to one of the letters r, u, s, t, so the
  test for the keyword below is not affected.
\<close>

definition toLowerChar :: "char \<Rightarrow> char" where
  "toLowerChar c =
     (let n = (of_char c :: nat) in if 65 \<le> n \<and> n \<le> 90 then char_of (n + 32) else c)"

definition toLowerCase :: "string \<Rightarrow> string" where
  "toLowerCase s = map toLowerChar s"

text \<open>\<open>s.includes(t)\<close>: \<open>t\<close> occurs in \<open>s\<close> as a contiguous run of characters.\<close>

fun startsWith :: "string \<Rightarrow> string \<Rightarrow> bool" where
  "startsWith s [] = True"
| "startsWith [] (d # t) = False"
| "startsWith (c # s) (d # t) = (c = d \<and> startsWith s t)"

fun str_includes :: "string \<Rightarrow> string \<Rightarrow> bool" where
  "str_includes [] t = (t = [])"
| "str_includes (c # s) t = (startsWith (c # s) t \<or> str_includes s t)"

text \<open>Truthiness of a string-or-null value: \<open>null\<close> and the empty string are falsy.\<close>

fun truthy :: "string option \<Rightarrow> bool" where
  "truthy None = False"
| "truthy (Some s) = (s \<noteq> [])"

section \<open>App: the dataset store and the goals\<close>

record AppState =
  capturedItems :: "CapturedItem list"
  goals :: "ProjectGoal list"

definition initialGoals :: "ProjectGoal list" where
  "initialGoals =
     [\<lparr>goal_id = ''g1'', title = ''Belt Wear Analysis'', targetCount = 50,
        currentCount = 12, deadline = ''2025-04-10'', goal_status = Active,
        description = ''Collect diversified samples of belt fraying at >30% wear.''\<rparr>,
      \<lparr>goal_id = ''g2'', title = ''Motor Mounting Rust'', targetCount = 20,
        currentCount = 18, deadline = ''2025-04-05'', goal_status = AtRisk,
        description = ''High priority: Identifying corrosion on Unit A-4 mounts.''\<rparr>]"

definition initialApp :: AppState where
  "initialApp = \<lparr>capturedItems = [], goals = initialGoals\<rparr>"

text \<open>
  The condition of \<open>handleNewCapture\<close>,
  \<open>item.analysis?.defectType.toLowerCase().includes('rust')\<close>. With no analysis the
  optional chain stops and yields \<open>undefined\<close>, which is falsy. With an analysis that has
  no \<open>defectType\<close> the call of \<open>toLowerCase\<close> on \<open>undefined\<close> throws a \<open>TypeError\<close>.
\<close>

definition isRust :: "CapturedItem \<Rightarrow> JsError + bool" where
  "isRust item =
     (case analysis item of
        None \<Rightarrow> Inr False
      | Some a \<Rightarrow>
          (case defectType a of
             None \<Rightarrow> Inl typeError
           | Some d \<Rightarrow> Inr (str_includes (toLowerCase d) ''rust'')))"

definition bump :: "string \<Rightarrow> ProjectGoal \<Rightarrow> ProjectGoal" where
  "bump k g = (if goal_id g = k then g\<lparr>currentCount := currentCount g + 1\<rparr> else g)"

text \<open>
  \<open>handleNewCapture\<close> gives the error it throws, if any, and the state it leaves. The
  update of \<open>capturedItems\<close> is queued before the condition is evaluated, so it takes
  effect also when the condition throws; the goals are then left as they were.
\<close>

definition handleNewCapture :: "AppState \<Rightarrow> CapturedItem \<Rightarrow> JsError option \<times> AppState" where
  "handleNewCapture app item =
     (let app1 = app\<lparr>capturedItems := capturedItems app @ [item]\<rparr>
      in case isRust item of
           Inl err \<Rightarrow> (Some err, app1)
         | Inr rust \<Rightarrow>
             if rust
             then (None, app1\<lparr>goals := map (bump ''g2'') (goals app1)\<rparr>)
             else (None, app1\<lparr>goals := map (bump ''g1'') (goals app1)\<rparr>))"

text \<open>The store after a sequence of commits, starting from the initial state.\<close>

definition committed :: "CapturedItem list \<Rightarrow> AppState" where
  "committed items = foldl (\<lambda>app item. snd (handleNewCapture app item)) initialApp items"

text \<open>
  \<open>App\<close> passes \<open>handleNewCapture\<close> to \<open>FieldView\<close> as \<open>onCapture\<close>. Whether the call
  throws depends on the item alone.
\<close>

definition appOnCapture :: "CapturedItem \<Rightarrow> JsError option" where
  "appOnCapture item = fst (handleNewCapture initialApp item)"

section \<open>The inference adapter: analyzeFieldImage\<close>

text \<open>
  A promise settles with a value or rejects with an error: the outcome of an awaited call
  is a sum, \<open>Inl\<close> the thrown value. The remote call \<open>ai.models.generateContent\<close> and
  \<open>JSON.parse\<close> (with its unchecked cast) are the environment; they are parameters.
\<close>

definition analyzePrompt :: "string \<Rightarrow> string" where
  "analyzePrompt contextPrompt =
     ''Analyze this industrial machinery image. Context: '' @ contextPrompt @
     ''. Provide structured feedback for the field engineer.''"

definition fallbackAnalysis :: AnalysisResult where
  "fallbackAnalysis =
     \<lparr>defectType = Some ''Unknown'', severity = Some Low, confidence = Some 0,
      instructions = Some ''Analysis service unavailable. Please retry.'',
      isQualitySufficient = False, missingAngles = None\<rparr>"

text \<open>\<open>response.text || '{}'\<close>\<close>

definition orEmptyObject :: "string option \<Rightarrow> string" where
  "orEmptyObject t = (case t of None \<Rightarrow> ''{}'' | Some x \<Rightarrow> (if x = [] then ''{}'' else x))"

definition analyzeFieldImage ::
  "(string option \<Rightarrow> string \<Rightarrow> JsError + string option) \<Rightarrow>
   (string \<Rightarrow> JsError + AnalysisResult) \<Rightarrow>
   string option \<Rightarrow> string \<Rightarrow> JsError + AnalysisResult" where
  "analyzeFieldImage generateContent jsonParse base64Image contextPrompt =
     (case generateContent base64Image (analyzePrompt contextPrompt) of
        Inl err \<Rightarrow> Inr fallbackAnalysis
      | Inr responseText \<Rightarrow>
          (case jsonParse (orEmptyObject responseText) of
             Inl err \<Rightarrow> Inr fallbackAnalysis
           | Inr result \<Rightarrow> Inr result))"

section \<open>FieldView: one capture at a time\<close>

text \<open>
  The component's \<open>useState\<close> cells, and what the suspended \<open>async\<close> handlers hold:
  \<open>analyzePending\<close> is the \<open>base64\<close> of a \<open>handleAnalyze\<close> waiting at its \<open>await\<close>,
  \<open>augmentPending\<close> counts the \<open>handleAugment\<close> calls waiting at theirs. \<open>effects\<close>
  records the inference requests and their settlements in the order they happen, and
  \<open>captured\<close> the items handed to \<open>onCapture\<close>.
\<close>

datatype Effect =
    AnalyzeRequested "string option" string
  | AnalyzeSettled AnalysisResult
  | AugmentRequested "string option" string
  | AugmentSettled "string option"

record FieldView =
  capturedImage :: "string option"
  annotatedImage :: "string option"
  isAnalyzing :: bool
  isAugmenting :: bool
  sessionAnalysis :: "AnalysisResult option"
  machineContext :: string
  isGuidanceActive :: bool
  analyzePending :: "string option option"
  augmentPending :: nat
  effects :: "Effect list"
  captured :: "CapturedItem list"

definition initialView :: FieldView where
  "initialView =
     \<lparr>capturedImage = None, annotatedImage = None, isAnalyzing = False,
      isAugmenting = False, sessionAnalysis = None,
      machineContext = ''Fuselage - Section 4A'', isGuidanceActive = False,
      analyzePending = None, augmentPending = 0, effects = [], captured = []\<rparr>"

text \<open>\<open>s.split(',')\<close> and the element at index 1, \<open>undefined\<close> when there is none.\<close>

fun split_str :: "char \<Rightarrow> string \<Rightarrow> string list" where
  "split_str d [] = [[]]"
| "split_str d (c # cs) =
     (if c = d then [] # split_str d cs
      else (case split_str d cs of
              [] \<Rightarrow> [[c]]
            | w # ws \<Rightarrow> (c # w) # ws))"

definition afterComma :: "string \<Rightarrow> string option" where
  "afterComma s = (case split_str CHR '','' s of _ # b # _ \<Rightarrow> Some b | _ \<Rightarrow> None)"

text \<open>
  \<open>handleCapture\<close> with the video element mounted, as it is whenever the capture control
  is on screen; \<open>dataUrl\<close> is what \<open>canvas.toDataURL\<close> yields for the frame.
\<close>

definition handleCapture :: "string \<Rightarrow> FieldView \<Rightarrow> FieldView" where
  "handleCapture dataUrl v = v\<lparr>capturedImage := Some dataUrl, isGuidanceActive := False\<rparr>"

text \<open>
  \<open>handleAugment\<close> up to its \<open>await\<close>, and from there on; \<open>generateAugmentedOverlay\<close>
  settles with an image or with null.
\<close>

text \<open>A value spliced into a template literal: \<open>undefined\<close> reads \<open>undefined\<close>.\<close>

definition spliced :: "string option \<Rightarrow> string" where
  "spliced x = (case x of None \<Rightarrow> ''undefined'' | Some t \<Rightarrow> t)"

definition handleAugment :: "string option \<Rightarrow> string option \<Rightarrow> FieldView \<Rightarrow> FieldView" where
  "handleAugment base64 defect v =
     v\<lparr>isAugmenting := True, augmentPending := augmentPending v + 1,
       effects := effects v @ [AugmentRequested base64 (''defect: '' @ spliced defect)]\<rparr>"

definition handleAugment_resume :: "string option \<Rightarrow> FieldView \<Rightarrow> FieldView" where
  "handleAugment_resume overlay v =
     v\<lparr>annotatedImage := overlay, isAugmenting := False,
       augmentPending := augmentPending v - 1,
       effects := effects v @ [AugmentSettled overlay]\<rparr>"

text \<open>
  \<open>handleAnalyze\<close> up to its \<open>await\<close>, and from there on. The awaited
  \<open>analyzeFieldImage\<close> never rejects, so the handler always resumes with a result.
\<close>

definition handleAnalyze :: "FieldView \<Rightarrow> FieldView" where
  "handleAnalyze v =
     (case capturedImage v of
        None \<Rightarrow> v
      | Some img \<Rightarrow>
          if img = [] then v
          else v\<lparr>isAnalyzing := True, sessionAnalysis := None, annotatedImage := None,
                 analyzePending := Some (afterComma img),
                 effects := effects v @ [AnalyzeRequested (afterComma img) (machineContext v)]\<rparr>)"

definition handleAnalyze_resume :: "string option \<Rightarrow> AnalysisResult \<Rightarrow> FieldView \<Rightarrow> FieldView" where
  "handleAnalyze_resume base64 result v =
     (let v1 = v\<lparr>sessionAnalysis := Some result, isAnalyzing := False, analyzePending := None,
                  effects := effects v @ [AnalyzeSettled result]\<rparr>
      in if defectType result \<noteq> Some ''None'' \<and> isQualitySufficient result
         then handleAugment base64 (defectType result) v1
         else v1)"

definition handleReset :: "FieldView \<Rightarrow> FieldView" where
  "handleReset v =
     v\<lparr>capturedImage := None, sessionAnalysis := None, annotatedImage := None,
       isGuidanceActive := False\<rparr>"

definition componentOf :: "string \<Rightarrow> string" where
  "componentOf ctx =
     (let c0 = ''Fuselage'';
          c1 = (if str_includes ctx ''Wing'' then ''Wing'' else c0);
          c2 = (if str_includes ctx ''Engine'' then ''Engine'' else c1);
          c3 = (if str_includes ctx ''Tail'' then ''Tail'' else c2)
      in c3)"

text \<open>
  \<open>handleSave\<close>, given the \<open>onCapture\<close> it was handed. The identifier and the time come
  from \<open>crypto.randomUUID()\<close> and \<open>Date.now()\<close>. The result is what the caller can
  observe: the error thrown, if any, the item handed to \<open>onCapture\<close>, if any, and the new
  state. When \<open>onCapture\<close> throws, the error passes through and \<open>handleReset\<close> is not
  reached.
\<close>

definition handleSave ::
  "(CapturedItem \<Rightarrow> JsError option) \<Rightarrow> string \<Rightarrow> nat \<Rightarrow> FieldView \<Rightarrow>
   JsError option \<times> CapturedItem option \<times> FieldView" where
  "handleSave onCapture uuid now v =
     (case capturedImage v of
        None \<Rightarrow> (None, None, v)
      | Some img \<Rightarrow>
          if img = [] then (None, None, v)
          else
            (case sessionAnalysis v of
               None \<Rightarrow> (None, None, v)
             | Some a \<Rightarrow>
                 (let newItem =
                    \<lparr>item_id = uuid, timestamp = now, imageUrl = img,
                     annotatedImageUrl =
                       (if truthy (annotatedImage v) then annotatedImage v else None),
                     analysis = Some a,
                     status = (if isQualitySufficient a then Approved else Pending),
                     metadata = \<lparr>machineId = ''B787-X'',
                                 component = componentOf (machineContext v),
                                 location = ''Hangar 1''\<rparr>\<rparr>;
                      v1 = v\<lparr>captured := captured v @ [newItem]\<rparr>
                  in case onCapture newItem of
                       Some err \<Rightarrow> (Some err, Some newItem, v1)
                     | None \<Rightarrow> (None, Some newItem, handleReset v1))))"

text \<open>
  The controls the component renders, read off its JSX: a handler runs only when its
  control is on screen, and a settlement only when the corresponding call is waiting.
\<close>

datatype FieldEvent =
    SelectContext string
  | ToggleGuidance
  | ClickCapture string
  | ClickAnalyze
  | AnalyzeResolved AnalysisResult
  | OverlayResolved "string option"
  | ToggleOverlay
  | ClickSave string nat
  | ClickDiscard

definition liveShown :: "FieldView \<Rightarrow> bool" where
  "liveShown v = (\<not> truthy (capturedImage v))"

definition analyzeShown :: "FieldView \<Rightarrow> bool" where
  "analyzeShown v =
     (truthy (capturedImage v) \<and> sessionAnalysis v = None \<and> \<not> isAnalyzing v)"

definition decisionShown :: "FieldView \<Rightarrow> bool" where
  "decisionShown v = (truthy (capturedImage v) \<and> sessionAnalysis v \<noteq> None)"

definition overlayToggleShown :: "FieldView \<Rightarrow> bool" where
  "overlayToggleShown v =
     (truthy (capturedImage v) \<and> truthy (annotatedImage v) \<and> \<not> isAugmenting v)"

fun dispatch :: "FieldView \<Rightarrow> FieldEvent \<Rightarrow> FieldView" where
  "dispatch v (SelectContext c) = v\<lparr>machineContext := c\<rparr>"
| "dispatch v ToggleGuidance =
     (if liveShown v then v\<lparr>isGuidanceActive := \<not> isGuidanceActive v\<rparr> else v)"
| "dispatch v (ClickCapture dataUrl) = (if liveShown v then handleCapture dataUrl v else v)"
| "dispatch v ClickAnalyze = (if analyzeShown v then handleAnalyze v else v)"
| "dispatch v (AnalyzeResolved result) =
     (case analyzePending v of
        None \<Rightarrow> v
      | Some base64 \<Rightarrow> handleAnalyze_resume base64 result v)"
| "dispatch v (OverlayResolved overlay) =
     (if 0 < augmentPending v then handleAugment_resume overlay v else v)"
| "dispatch v ToggleOverlay =
     (if overlayToggleShown v then v\<lparr>annotatedImage := None\<rparr> else v)"
| "dispatch v (ClickSave uuid now) =
     (if decisionShown v then snd (snd (handleSave appOnCapture uuid now v)) else v)"
| "dispatch v ClickDiscard = (if decisionShown v then handleReset v else v)"

definition isDisposal :: "FieldEvent \<Rightarrow> bool" where
  "isDisposal e = (case e of ClickSave uuid now \<Rightarrow> True | ClickDiscard \<Rightarrow> True | _ \<Rightarrow> False)"

definition augmentWanted :: "AnalysisResult \<Rightarrow> bool" where
  "augmentWanted r = (defectType r \<noteq> Some ''None'' \<and> isQualitySufficient r)"

fun isAugmentRequest :: "Effect \<Rightarrow> bool" where
  "isAugmentRequest (AugmentRequested b p) = True"
| "isAugmentRequest e = False"

text \<open>
  Reading a log from the left with a flag that records whether an analysis has settled:
  every augmentation request is met with the flag set.
\<close>

fun afterAnalysis :: "bool \<Rightarrow> Effect list \<Rightarrow> bool" where
  "afterAnalysis seen [] = True"
| "afterAnalysis seen (AnalyzeSettled r # es) = afterAnalysis True es"
| "afterAnalysis seen (AugmentRequested b p # es) = (seen \<and> afterAnalysis seen es)"
| "afterAnalysis seen (e # es) = afterAnalysis seen es"

text \<open>The store as \<open>FieldView\<close> and \<open>App\<close> fill it: each save hands its item to \<open>handleNewCapture\<close>.\<close>

definition saveInto :: "AppState \<Rightarrow> string \<times> nat \<times> FieldView \<Rightarrow> AppState" where
  "saveInto app x =
     (case x of (uuid, now, v) \<Rightarrow>
        (case handleSave (\<lambda>item. fst (handleNewCapture app item)) uuid now v of
           (thrown, Some item, v') \<Rightarrow> snd (handleNewCapture app item)
         | (thrown, None, v') \<Rightarrow> app))"

definition stored :: "(string \<times> nat \<times> FieldView) list \<Rightarrow> AppState" where
  "stored saves = foldl saveInto initialApp saves"

text \<open>
  A capture session starts in a state where a frame has just been frozen and nothing has
  been analysed yet; it runs through the events dispatched to the component.
\<close>

definition justCaptured :: "FieldView \<Rightarrow> bool" where
  "justCaptured v =
     (truthy (capturedImage v) \<and> sessionAnalysis v = None \<and> \<not> isAnalyzing v \<and>
      analyzePending v = None)"

definition run :: "FieldView \<Rightarrow> FieldEvent list \<Rightarrow> FieldView" where
  "run v evs = foldl dispatch v evs"

definition augmentRequests :: "Effect list \<Rightarrow> nat" where
  "augmentRequests es = length (filter isAugmentRequest es)"

definition expectedAugments :: "AnalysisResult option \<Rightarrow> nat" where
  "expectedAugments a =
     (case a of None \<Rightarrow> 0 | Some r \<Rightarrow> (if augmentWanted r then 1 else 0))"

text \<open>What \<open>handleSave\<close> establishes for the item it builds.\<close>

definition itemOK :: "CapturedItem \<Rightarrow> bool" where
  "itemOK item =
     (case analysis item of
        None \<Rightarrow> False
      | Some a \<Rightarrow> status item = (if isQualitySufficient a then Approved else Pending))"

text \<open>An invariant of the component, and the invariant of a running session, relative to
  the state it started in.\<close>

definition viewInv :: "FieldView \<Rightarrow> bool" where
  "viewInv v =
     ((isAnalyzing v \<longleftrightarrow> analyzePending v \<noteq> None) \<and>
      (analyzePending v \<noteq> None \<longrightarrow> truthy (capturedImage v) \<and> sessionAnalysis v = None) \<and>
      (\<not> truthy (capturedImage v) \<longrightarrow> sessionAnalysis v = None))"

definition sessionInv :: "FieldView \<Rightarrow> FieldView \<Rightarrow> bool" where
  "sessionInv v0 v =
     (truthy (capturedImage v) \<and>
      (isAnalyzing v \<longleftrightarrow> analyzePending v \<noteq> None) \<and>
      (analyzePending v \<noteq> None \<longrightarrow> sessionAnalysis v = None) \<and>
      (\<exists>new. effects v = effects v0 @ new \<and>
             augmentRequests new = expectedAugments (sessionAnalysis v) \<and>
             afterAnalysis False new))"

section \<open>The video job: generateInspectionVideo\<close>

text \<open>
  The service is a state \<open>'e\<close> that the two remote calls read and change: \<open>generateVideos\<close>
  submits the job, \<open>getVideosOperation\<close> polls it. An \<open>Operation\<close> is the handle, with
  what the code reads of it: \<open>done\<close> and \<open>response?.generatedVideos?.[0]?.video?.uri\<close>.
  The steps taken are recorded in order; \<open>Sleep\<close> carries the milliseconds of the timeout.
  The polling loop may run forever: not returning is the value \<open>None\<close>.
\<close>

record Operation =
  op_done :: bool
  videoUri :: "string option"

datatype VideoStep = Submit | Sleep nat | Poll | LogError

partial_function (option) pollingLoop ::
  "('e \<Rightarrow> Operation \<Rightarrow> (JsError + Operation) \<times> 'e) \<Rightarrow>
   Operation \<Rightarrow> 'e \<Rightarrow> VideoStep list \<Rightarrow> ((JsError + Operation) \<times> 'e \<times> VideoStep list) option" where
  [code]: "pollingLoop getVideosOperation operation env steps =
     (if op_done operation then Some (Inr operation, env, steps)
      else
        (case getVideosOperation env operation of
           (Inl err, env') \<Rightarrow> Some (Inl err, env', steps @ [Sleep 5000, Poll])
         | (Inr operation', env') \<Rightarrow>
             pollingLoop getVideosOperation operation' env' (steps @ [Sleep 5000, Poll])))"

definition videoLink :: "string \<Rightarrow> Operation \<Rightarrow> string option" where
  "videoLink apiKey operation =
     (if truthy (videoUri operation)
      then map_option (\<lambda>u. u @ ''&key='' @ apiKey) (videoUri operation)
      else None)"

definition generateInspectionVideo ::
  "('e \<Rightarrow> string option \<Rightarrow> string \<Rightarrow> (JsError + Operation) \<times> 'e) \<Rightarrow>
   ('e \<Rightarrow> Operation \<Rightarrow> (JsError + Operation) \<times> 'e) \<Rightarrow>
   string \<Rightarrow> string option \<Rightarrow> string \<Rightarrow> 'e \<Rightarrow>
   ((JsError + string option) \<times> 'e \<times> VideoStep list) option" where
  "generateInspectionVideo generateVideos getVideosOperation apiKey base64Image prompt env =
     (case generateVideos env base64Image prompt of
        (Inl err, env1) \<Rightarrow> Some (Inl err, env1, [Submit, LogError])
      | (Inr operation, env1) \<Rightarrow>
          (case pollingLoop getVideosOperation operation env1 [Submit] of
             None \<Rightarrow> None
           | Some (Inl err, env2, steps) \<Rightarrow> Some (Inl err, env2, steps @ [LogError])
           | Some (Inr finished, env2, steps) \<Rightarrow>
               Some (Inr (videoLink apiKey finished), env2, steps)))"

text \<open>
  The handle in hand after \<open>n\<close> polls, as long as no poll has failed; and the steps of
  \<open>n\<close> rounds of the loop.
\<close>

fun handleAfter ::
  "('e \<Rightarrow> Operation \<Rightarrow> (JsError + Operation) \<times> 'e) \<Rightarrow>
   nat \<Rightarrow> Operation \<Rightarrow> 'e \<Rightarrow> (JsError + Operation) \<times> 'e" where
  "handleAfter poll 0 operation env = (Inr operation, env)"
| "handleAfter poll (Suc n) operation env =
     (case poll env operation of
        (Inl err, env') \<Rightarrow> (Inl err, env')
      | (Inr operation', env') \<Rightarrow> handleAfter poll n operation' env')"

fun pollSteps :: "nat \<Rightarrow> VideoStep list" where
  "pollSteps 0 = []"
| "pollSteps (Suc n) = Sleep 5000 # Poll # pollSteps n"

section \<open>Numbers of the runtime\<close>

text \<open>
  Where the source divides and multiplies, its numbers are IEEE 754 doubles. The counts
  are small integers, which doubles hold exactly; a quotient or a product is the exact
  rational result rounded to the nearest double.
\<close>

text \<open>\<open>bitLength n\<close> is the number of binary digits of a positive integer.\<close>

function bitLength :: "int \<Rightarrow> int" where
  "bitLength n = (if n \<le> 0 then 0 else 1 + bitLength (n div 2))"
  by pat_completeness auto
termination
  by (relation "measure nat") auto

declare bitLength.simps [simp del]

text \<open>The binary exponent of a positive rational: \<open>2 ^ e \<le> x < 2 ^ (e + 1)\<close>.\<close>

definition ilog2 :: "rat \<Rightarrow> int" where
  "ilog2 x =
     (case quotient_of x of (p, q) \<Rightarrow>
        (let a = bitLength p - bitLength q
         in if 2 powi a \<le> x then a else a - 1))"

text \<open>The nearest integer, a tie going to the even one.\<close>

definition roundTiesToEven :: "rat \<Rightarrow> int" where
  "roundTiesToEven t =
     (let f = \<lfloor>t\<rfloor>; d = t - of_int f
      in if d < 1 / 2 then f
         else if 1 / 2 < d then f + 1
         else if even f then f else f + 1)"

text \<open>
  The value of a real number as a JavaScript number: rounded to 53 significant bits, ties
  to even, with the fixed spacing of the subnormal range below \<open>2 ^ -1022\<close>. Overflow to
  infinity is left out; no quotient or product below comes near it.
\<close>

definition fl64 :: "rat \<Rightarrow> rat" where
  "fl64 x =
     (if x = 0 then 0
      else
        (let u = 2 powi (max (ilog2 \<bar>x\<bar>) (- 1022) - 52)
         in sgn x * of_int (roundTiesToEven (\<bar>x\<bar> / u)) * u))"

text \<open>\<open>Math.round\<close>: the nearest integer, a tie going up.\<close>

definition Math_round :: "rat \<Rightarrow> int" where
  "Math_round y = \<lfloor>y + 1 / 2\<rfloor>"

section \<open>DataView: the aggregates\<close>

text \<open>
  \<open>defectCounts\<close> is the \<open>reduce\<close> over the items into an object that starts as \<open>{}\<close>;
  \<open>item.analysis?.defectType || 'Unknown'\<close> is the label and \<open>(acc[type] || 0) + 1\<close> the
  new entry. The object is a plain one, with \<open>Object.prototype\<close> behind it: a label that
  has no entry of its own reads as \<open>undefined\<close> only if it does not name a property of
  \<open>Object.prototype\<close>. For the names in \<open>inheritedNames\<close> the inherited function is read,
  the sum is a string, and the entry holds that string from then on (\<open>Garbled\<close>). For
  \<open>__proto__\<close> the prototype object is read, the sum is a string, and the assignment of a
  string to \<open>__proto__\<close> is ignored: no entry is made.
\<close>

definition defectLabel :: "CapturedItem \<Rightarrow> string" where
  "defectLabel item =
     (case analysis item of
        None \<Rightarrow> ''Unknown''
      | Some a \<Rightarrow>
          (case defectType a of
             None \<Rightarrow> ''Unknown''
           | Some d \<Rightarrow> (if d = [] then ''Unknown'' else d)))"

definition inheritedNames :: "string list" where
  "inheritedNames =
     [''constructor'', ''__defineGetter__'', ''__defineSetter__'', ''hasOwnProperty'',
      ''__lookupGetter__'', ''__lookupSetter__'', ''isPrototypeOf'', ''propertyIsEnumerable'',
      ''toString'', ''valueOf'', ''toLocaleString'']"

datatype Entry = Count nat | Garbled

definition countUp :: "(string \<rightharpoonup> Entry) \<Rightarrow> CapturedItem \<Rightarrow> (string \<rightharpoonup> Entry)" where
  "countUp acc item =
     (let type = defectLabel item
      in if type = ''__proto__'' then acc
         else acc(type \<mapsto>
                (case acc type of
                   Some (Count n) \<Rightarrow> Count (n + 1)
                 | Some Garbled \<Rightarrow> Garbled
                 | None \<Rightarrow> (if type \<in> set inheritedNames then Garbled else Count 1))))"

definition defectCounts :: "CapturedItem list \<Rightarrow> (string \<rightharpoonup> Entry)" where
  "defectCounts items = foldl countUp Map.empty items"

definition pendingCount :: "CapturedItem list \<Rightarrow> nat" where
  "pendingCount items = length (filter (\<lambda>i. status i = Pending) items)"

definition passesQuality :: "CapturedItem \<Rightarrow> bool" where
  "passesQuality i = (case analysis i of None \<Rightarrow> False | Some a \<Rightarrow> isQualitySufficient a)"

definition qualityPercentage :: "CapturedItem list \<Rightarrow> int" where
  "qualityPercentage items =
     (if 0 < length items
      then Math_round
             (fl64 (fl64 (of_nat (length (filter passesQuality items)) / of_nat (length items)) * 100))
      else 0)"

section \<open>ChatPanel\<close>

text \<open>
  The blank test of \<open>handleSend\<close> depends on characters outside ASCII, so the texts of
  the chat are kept as JavaScript has them: sequences of UTF-16 code units, each given by
  its number. \<open>ascii\<close> reads an ASCII text as such a sequence.
\<close>

type_synonym ustring = "int list"

definition ascii :: "string \<Rightarrow> ustring" where
  "ascii s = map of_char s"

text \<open>
  \<open>messages\<close> is the log held by \<open>App\<close>, \<open>input\<close> and \<open>isTyping\<close> are the panel's own
  cells. \<open>awaiting\<close> holds the calls of \<open>sendChatMessage\<close> that have not settled yet,
  oldest first, each with the history and the text it was given. \<open>handleSend\<close> is split
  at its \<open>await\<close>; \<open>handleSend_resume k\<close> is the settlement of the k-th waiting call.
\<close>

datatype Sender = User | Ai

record ChatMessage =
  msg_id :: string
  sender :: Sender
  role :: string
  msg_text :: ustring
  msg_timestamp :: nat

record ChatPanel =
  messages :: "ChatMessage list"
  input :: ustring
  isTyping :: bool
  awaiting :: "(ChatMessage list \<times> ustring) list"

definition initialChat :: "nat \<Rightarrow> ChatPanel" where
  "initialChat now =
     \<lparr>messages =
        [\<lparr>msg_id = ''1'', sender = Ai, role = ''System'',
          msg_text =
            ascii ''FactoryBridge Central Online. How can I assist with the inspection today?'',
          msg_timestamp = now\<rparr>],
      input = [], isTyping = False, awaiting = []\<rparr>"

text \<open>
  \<open>input.trim()\<close> removes white space and line terminators from both ends. These are,
  in ECMAScript: tab, line feed, vertical tab, form feed, carriage return, space,
  no-break space (U+00A0), the byte order mark (U+FEFF), the line and paragraph
  separators (U+2028, U+2029) and the other space separators of Unicode (U+1680, U+2000
  to U+200A, U+202F, U+205F, U+3000). Each is a single code unit.
\<close>

definition isWhitespace :: "int \<Rightarrow> bool" where
  "isWhitespace u =
     (u \<in> set [0x09, 0x0A, 0x0B, 0x0C, 0x0D, 0x20, 0xA0, 0x1680, 0x2028, 0x2029, 0x202F,
               0x205F, 0x3000, 0xFEFF] \<or>
      (0x2000 \<le> u \<and> u \<le> 0x200A))"

definition trim :: "ustring \<Rightarrow> ustring" where
  "trim s = rev (dropWhile isWhitespace (rev (dropWhile isWhitespace s)))"

definition setInput :: "ustring \<Rightarrow> ChatPanel \<Rightarrow> ChatPanel" where
  "setInput s p = p\<lparr>input := s\<rparr>"

definition handleSend :: "string \<Rightarrow> nat \<Rightarrow> string \<Rightarrow> ChatPanel \<Rightarrow> ChatPanel" where
  "handleSend uuid now currentUserRole p =
     (if trim (input p) = [] then p
      else
        (let userMsg = \<lparr>msg_id = uuid, sender = User, role = currentUserRole,
                          msg_text = input p, msg_timestamp = now\<rparr>
         in p\<lparr>messages := messages p @ [userMsg], input := [], isTyping := True,
               awaiting := awaiting p @ [(messages p, input p)]\<rparr>))"

definition handleSend_resume :: "nat \<Rightarrow> string \<Rightarrow> nat \<Rightarrow> ustring \<Rightarrow> ChatPanel \<Rightarrow> ChatPanel" where
  "handleSend_resume k uuid now responseText p =
     (if k < length (awaiting p)
      then
        (let aiMsg = \<lparr>msg_id = uuid, sender = Ai, role = ''System'',
                        msg_text = responseText, msg_timestamp = now\<rparr>
         in p\<lparr>messages := messages p @ [aiMsg], isTyping := False,
               awaiting := take k (awaiting p) @ drop (Suc k) (awaiting p)\<rparr>)
      else p)"

text \<open>
  A turn: the user types and sends, and the reply arrives before anything else happens.
\<close>

record Turn =
  typed :: ustring
  sendId :: string
  sendTime :: nat
  sendRole :: string
  replyId :: string
  replyTime :: nat
  replyText :: ustring

definition turn :: "ChatPanel \<Rightarrow> Turn \<Rightarrow> ChatPanel" where
  "turn p t =
     handleSend_resume 0 (replyId t) (replyTime t) (replyText t)
       (handleSend (sendId t) (sendTime t) (sendRole t) (setInput (typed t) p))"

text \<open>Every user message of a log is immediately followed by a message of the AI.\<close>

fun answered :: "ChatMessage list \<Rightarrow> bool" where
  "answered [] = True"
| "answered [m] = (sender m = Ai)"
| "answered (m # m' # ms) =
     ((if sender m = User then sender m' = Ai else True) \<and> answered (m' # ms))"

section \<open>FieldView: the guidance scanner\<close>














section \<open>Sample data\<close>

definition sampleMetadata :: Metadata where
  "sampleMetadata = \<lparr>machineId = ''B787-X'', component = ''Fuselage'', location = ''Hangar 1''\<rparr>"

definition rustAnalysis :: AnalysisResult where
  "rustAnalysis = \<lparr>defectType = Some ''Surface Rust'', severity = Some High,
     confidence = Some 90, instructions = Some ''Capture side view'',
     isQualitySufficient = True, missingAngles = None\<rparr>"

definition crackAnalysis :: AnalysisResult where
  "crackAnalysis = \<lparr>defectType = Some ''Crack'', severity = Some Medium,
     confidence = Some 75, instructions = Some ''Move closer'',
     isQualitySufficient = False, missingAngles = Some [''Side'']\<rparr>"

definition cleanAnalysis :: AnalysisResult where
  "cleanAnalysis = \<lparr>defectType = Some ''None'', severity = Some Low,
     confidence = Some 98, instructions = Some ''No action needed'',
     isQualitySufficient = True, missingAngles = Some []\<rparr>"

text \<open>The object \<open>{}\<close>, which \<open>analyzeFieldImage\<close> returns for an empty answer.\<close>

definition emptyObject :: AnalysisResult where
  "emptyObject = \<lparr>defectType = None, severity = None, confidence = None,
     instructions = None, isQualitySufficient = False, missingAngles = None\<rparr>"

definition constructorAnalysis :: AnalysisResult where
  "constructorAnalysis = \<lparr>defectType = Some ''constructor'', severity = Some Low,
     confidence = Some 50, instructions = Some ''Capture side view'',
     isQualitySufficient = False, missingAngles = None\<rparr>"

definition protoAnalysis :: AnalysisResult where
  "protoAnalysis = \<lparr>defectType = Some ''__proto__'', severity = Some Low,
     confidence = Some 50, instructions = Some ''Capture side view'',
     isQualitySufficient = False, missingAngles = None\<rparr>"

definition rustItem :: CapturedItem where
  "rustItem = \<lparr>item_id = ''u1'', timestamp = 1000, imageUrl = ''data:image/jpeg;base64,AAAA'',
     annotatedImageUrl = None, analysis = Some rustAnalysis, status = Approved,
     metadata = sampleMetadata\<rparr>"

definition crackItem :: CapturedItem where
  "crackItem = \<lparr>item_id = ''u2'', timestamp = 2000, imageUrl = ''data:image/jpeg;base64,BBBB'',
     annotatedImageUrl = None, analysis = Some crackAnalysis, status = Pending,
     metadata = sampleMetadata\<rparr>"

definition bareItem :: CapturedItem where
  "bareItem = \<lparr>item_id = ''u3'', timestamp = 3000, imageUrl = ''data:image/jpeg;base64,CCCC'',
     annotatedImageUrl = None, analysis = None, status = Pending,
     metadata = sampleMetadata\<rparr>"

definition emptyObjectItem :: CapturedItem where
  "emptyObjectItem = \<lparr>item_id = ''u4'', timestamp = 4000,
     imageUrl = ''data:image/jpeg;base64,AAAA'', annotatedImageUrl = None,
     analysis = Some emptyObject, status = Pending,
     metadata = \<lparr>machineId = ''B787-X'', component = ''Fuselage'', location = ''Hangar 1''\<rparr>\<rparr>"

definition capturedView :: FieldView where
  "capturedView = handleCapture ''data:image/jpeg;base64,AAAA'' initialView"

definition analyzedView :: "AnalysisResult \<Rightarrow> FieldView" where
  "analyzedView r = run capturedView [ClickAnalyze, AnalyzeResolved r]"

definition sampleSaves :: "(string \<times> nat \<times> FieldView) list" where
  "sampleSaves =
     [(''u1'', 1000, analyzedView rustAnalysis), (''u2'', 2000, analyzedView crackAnalysis)]"

definition failingService :: "string option \<Rightarrow> string \<Rightarrow> JsError + string option" where
  "failingService img prompt = Inl (JsError ''503 Service Unavailable'')"

definition noParse :: "string \<Rightarrow> JsError + AnalysisResult" where
  "noParse t = Inl (JsError ''SyntaxError'')"

text \<open>
  A service whose answer carries no text, and \<open>JSON.parse\<close> on the one text it is then
  given.
\<close>

definition silentService :: "string option \<Rightarrow> string \<Rightarrow> JsError + string option" where
  "silentService img prompt = Inr None"

definition parseObject :: "string \<Rightarrow> JsError + AnalysisResult" where
  "parseObject t = (if t = ''{}'' then Inr emptyObject else Inl (JsError ''SyntaxError''))"

definition pendingOp :: Operation where "pendingOp = \<lparr>op_done = False, videoUri = None\<rparr>"
definition finishedOp :: Operation where "finishedOp = \<lparr>op_done = True, videoUri = Some ''https://video.example/v1''\<rparr>"

definition mockSubmit :: "nat \<Rightarrow> string option \<Rightarrow> string \<Rightarrow> (JsError + Operation) \<times> nat" where
  "mockSubmit polls img prompt = (Inr pendingOp, polls)"
definition mockPoll :: "nat \<Rightarrow> Operation \<Rightarrow> (JsError + Operation) \<times> nat" where
  "mockPoll polls operation = (Inr (if polls < 2 then pendingOp else finishedOp), polls + 1)"

definition sampleSaves3 :: "(string \<times> nat \<times> FieldView) list" where
  "sampleSaves3 = sampleSaves @ [(''u3'', 3000, analyzedView rustAnalysis)]"

definition oddSaves :: "(string \<times> nat \<times> FieldView) list" where
  "oddSaves =
     [(''u1'', 1000, analyzedView constructorAnalysis),
      (''u2'', 2000, analyzedView constructorAnalysis),
      (''u3'', 3000, analyzedView protoAnalysis)]"

definition overlapped :: ChatPanel where
  "overlapped =
     handleSend ''u2'' 20 ''Field Engineer''
       (setInput (ascii ''second'')
          (handleSend ''u1'' 10 ''Field Engineer'' (setInput (ascii ''first'') (initialChat 0))))"

definition overlappedDone :: ChatPanel where
  "overlappedDone =
     handleSend_resume 0 ''a2'' 40 (ascii ''reply to second'')
       (handleSend_resume 0 ''a1'' 30 (ascii ''reply to first'') overlapped)"

definition sampleTurns :: "Turn list" where
  "sampleTurns =
     [\<lparr>typed = ascii ''first'', sendId = ''u1'', sendTime = 10, sendRole = ''Field Engineer'',
       replyId = ''a1'', replyTime = 20, replyText = ascii ''reply to first''\<rparr>,
      \<lparr>typed = ascii ''second'', sendId = ''u2'', sendTime = 30, sendRole = ''Field Engineer'',
       replyId = ''a2'', replyTime = 40, replyText = ascii ''reply to second''\<rparr>]"


section \<open>Strings: what the primitives compute\<close>

lemma startsWith_iff: "startsWith s t \<longleftrightarrow> (\<exists>r. s = t @ r)"
  by (induction s t rule: startsWith.induct) auto

lemma str_includes_iff: "str_includes s t \<longleftrightarrow> (\<exists>p r. s = p @ t @ r)"
proof (induction s)
  case Nil
  then show ?case by auto
next
  case (Cons c s)
  show ?case
  proof
    assume "str_includes (c # s) t"
    then consider "startsWith (c # s) t" | "str_includes s t" by auto
    then show "\<exists>p r. c # s = p @ t @ r"
    proof cases
      case 1
      then obtain r where "c # s = t @ r" by (auto simp: startsWith_iff)
      then have "c # s = [] @ t @ r" by simp
      then show ?thesis by blast
    next
      case 2
      then obtain p r where "s = p @ t @ r" using Cons.IH by blast
      then have "c # s = (c # p) @ t @ r" by simp
      then show ?thesis by blast
    qed
  next
    assume "\<exists>p r. c # s = p @ t @ r"
    then obtain p r where pr: "c # s = p @ t @ r" by blast
    show "str_includes (c # s) t"
    proof (cases p)
      case Nil
      with pr have "startsWith (c # s) t" by (auto simp: startsWith_iff)
      then show ?thesis by simp
    next
      case (Cons d p')
      with pr have "s = p' @ t @ r" by simp
      then have "str_includes s t" using Cons.IH by blast
      then show ?thesis by simp
    qed
  qed
qed

lemma includes_lower_iff:
  "str_includes (toLowerCase s) t \<longleftrightarrow> (\<exists>p q r. s = p @ q @ r \<and> toLowerCase q = t)"
proof
  assume "str_includes (toLowerCase s) t"
  then obtain p r where "map toLowerChar s = p @ t @ r"
    by (auto simp: str_includes_iff toLowerCase_def)
  then have "\<exists>us vs. s = us @ vs \<and> p = map toLowerChar us \<and> t @ r = map toLowerChar vs"
    by (simp only: map_eq_append_conv)
  then obtain p' v where v: "s = p' @ v" "t @ r = map toLowerChar v" by blast
  from v(2) have "\<exists>us vs. v = us @ vs \<and> t = map toLowerChar us \<and> r = map toLowerChar vs"
    by (simp only: append_eq_map_conv)
  then obtain q' r' where "v = q' @ r'" "t = map toLowerChar q'" by blast
  with v have "s = p' @ q' @ r'" "map toLowerChar q' = t" by simp_all
  then show "\<exists>p q r. s = p @ q @ r \<and> toLowerCase q = t"
    by (auto simp: toLowerCase_def)
next
  assume "\<exists>p q r. s = p @ q @ r \<and> toLowerCase q = t"
  then obtain p q r where "s = p @ q @ r" "toLowerCase q = t" by blast
  then have "toLowerCase s = toLowerCase p @ t @ toLowerCase r"
    by (simp add: toLowerCase_def)
  then show "str_includes (toLowerCase s) t"
    unfolding str_includes_iff by blast
qed

lemma isRust_cases:
  "isRust item =
     (case analysis item of
        None \<Rightarrow> Inr False
      | Some r \<Rightarrow>
          (case defectType r of
             None \<Rightarrow> Inl typeError
           | Some d \<Rightarrow> Inr (\<exists>p q s. d = p @ q @ s \<and> toLowerCase q = ''rust'')))"
  by (simp add: isRust_def includes_lower_iff split: option.splits)

section \<open>Goal tracking on commit\<close>

lemma committed_snoc: "committed (items @ [x]) = snd (handleNewCapture (committed items) x)"
  by (simp add: committed_def)

lemma goals_committed:
  "\<exists>a b. goals (committed items) = [a, b] \<and> goal_id a = ''g1'' \<and> goal_id b = ''g2''"
proof (induction items rule: rev_induct)
  case Nil
  show ?case by (simp add: committed_def initialApp_def initialGoals_def)
next
  case (snoc x xs)
  then obtain a b where
    "goals (committed xs) = [a, b]" "goal_id a = ''g1''" "goal_id b = ''g2''"
    by blast
  then show ?case
    by (cases "isRust x") (simp_all add: committed_snoc handleNewCapture_def Let_def bump_def)
qed

lemma initial_counts: "map currentCount (goals (committed [])) = [12, 18]"
  by (simp add: committed_def initialApp_def initialGoals_def)

lemma onCapture_of_app: "fst (handleNewCapture app item) = appOnCapture item"
  by (cases "isRust item") (simp_all add: appOnCapture_def handleNewCapture_def Let_def)

lemma appOnCapture_cases:
  "appOnCapture item =
     (case analysis item of
        None \<Rightarrow> None
      | Some r \<Rightarrow> (case defectType r of None \<Rightarrow> Some typeError | Some d \<Rightarrow> None))"
  by (simp add: appOnCapture_def handleNewCapture_def isRust_def Let_def split: option.splits)

text \<open>
  How an analysis without \<open>defectType\<close> reaches the store: the service answers with no
  text, \<open>analyzeFieldImage\<close> returns the object \<open>{}\<close>, the decision controls are shown
  for it, and Save hands \<open>handleNewCapture\<close> an item with that analysis. The \<open>TypeError\<close>
  passes through \<open>handleSave\<close>, which does not reset the session.
\<close>

lemma empty_answer_path:
  "analyzeFieldImage silentService parseObject (Some ''AAAA'') ''Fuselage - Section 4A'' =
     Inr emptyObject \<and>
   decisionShown (analyzedView emptyObject) \<and>
   handleSave appOnCapture ''u4'' 4000 (analyzedView emptyObject) =
     (Some typeError, Some emptyObjectItem,
      (analyzedView emptyObject)\<lparr>captured := [emptyObjectItem]\<rparr>)"
  by code_simp

text \<open>
  C1. In every state of the store reached by commits, the goal list is the pair of the
  default goal \<open>g1\<close> and the rust goal \<open>g2\<close>. A commit appends the item and then:
  for an item with no analysis it adds exactly 1 to the \<open>currentCount\<close> of \<open>g1\<close>; for an
  item whose analysis has a \<open>defectType\<close> it adds exactly 1 to the \<open>currentCount\<close> of \<open>g2\<close>
  when some substring of the \<open>defectType\<close> lower-cases to \<open>rust\<close> and of \<open>g1\<close> otherwise,
  the other goal staying as it is; for an item whose analysis has no \<open>defectType\<close> it
  throws a \<open>TypeError\<close> and changes no goal. So the claim holds for every item but those
  of the last kind, where no goal is incremented.
\<close>

theorem commit_goal_update:
  "\<exists>a b. goals (committed items) = [a, b] \<and> goal_id a = ''g1'' \<and> goal_id b = ''g2'' \<and>
     handleNewCapture (committed items) item =
       (case analysis item of
          None \<Rightarrow>
            (None, \<lparr>capturedItems = capturedItems (committed items) @ [item],
                    goals = [a\<lparr>currentCount := currentCount a + 1\<rparr>, b]\<rparr>)
        | Some r \<Rightarrow>
            (case defectType r of
               None \<Rightarrow>
                 (Some typeError,
                  \<lparr>capturedItems = capturedItems (committed items) @ [item], goals = [a, b]\<rparr>)
             | Some d \<Rightarrow>
                 if (\<exists>p q s. d = p @ q @ s \<and> toLowerCase q = ''rust'')
                 then (None, \<lparr>capturedItems = capturedItems (committed items) @ [item],
                              goals = [a, b\<lparr>currentCount := currentCount b + 1\<rparr>]\<rparr>)
                 else (None, \<lparr>capturedItems = capturedItems (committed items) @ [item],
                              goals = [a\<lparr>currentCount := currentCount a + 1\<rparr>, b]\<rparr>)))"
proof -
  obtain a b where ab:
    "goals (committed items) = [a, b]" "goal_id a = ''g1''" "goal_id b = ''g2''"
    using goals_committed by blast
  have eq: "committed items\<lparr>capturedItems := capturedItems (committed items) @ [item],
              goals := gs\<rparr> =
            \<lparr>capturedItems = capturedItems (committed items) @ [item], goals = gs\<rparr>" for gs
    by simp
  have "handleNewCapture (committed items) item =
       (case analysis item of
          None \<Rightarrow>
            (None, \<lparr>capturedItems = capturedItems (committed items) @ [item],
                    goals = [a\<lparr>currentCount := currentCount a + 1\<rparr>, b]\<rparr>)
        | Some r \<Rightarrow>
            (case defectType r of
               None \<Rightarrow>
                 (Some typeError,
                  \<lparr>capturedItems = capturedItems (committed items) @ [item], goals = [a, b]\<rparr>)
             | Some d \<Rightarrow>
                 if (\<exists>p q s. d = p @ q @ s \<and> toLowerCase q = ''rust'')
                 then (None, \<lparr>capturedItems = capturedItems (committed items) @ [item],
                              goals = [a, b\<lparr>currentCount := currentCount b + 1\<rparr>]\<rparr>)
                 else (None, \<lparr>capturedItems = capturedItems (committed items) @ [item],
                              goals = [a\<lparr>currentCount := currentCount a + 1\<rparr>, b]\<rparr>)))"
  proof (cases "analysis item")
    case None
    then have "isRust item = Inr False" by (simp add: isRust_def)
    with None ab show ?thesis by (simp add: handleNewCapture_def Let_def bump_def)
  next
    case (Some r)
    show ?thesis
    proof (cases "defectType r")
      case None
      with Some have "isRust item = Inl typeError" by (simp add: isRust_def)
      with Some None ab show ?thesis by (simp add: handleNewCapture_def Let_def)
    next
      case d: (Some d)
      show ?thesis
      proof (cases "\<exists>p q s. d = p @ q @ s \<and> toLowerCase q = ''rust''")
        case True
        with Some d have "isRust item = Inr True" by (simp add: isRust_cases)
        then have "handleNewCapture (committed items) item =
            (None, \<lparr>capturedItems = capturedItems (committed items) @ [item],
                     goals = [a, b\<lparr>currentCount := currentCount b + 1\<rparr>]\<rparr>)"
          using ab by (simp add: handleNewCapture_def Let_def bump_def)
        then show ?thesis by (simp only: Some d option.case if_P [OF True])
      next
        case False
        with Some d have "isRust item = Inr False" by (simp add: isRust_cases)
        then have "handleNewCapture (committed items) item =
            (None, \<lparr>capturedItems = capturedItems (committed items) @ [item],
                     goals = [a\<lparr>currentCount := currentCount a + 1\<rparr>, b]\<rparr>)"
          using ab by (simp add: handleNewCapture_def Let_def bump_def)
        then show ?thesis by (simp only: Some d option.case if_not_P [OF False])
      qed
    qed
  qed
  with ab show ?thesis by blast
qed

theorem commit_goal_update_witness:
  "handleNewCapture (committed []) emptyObjectItem =
     (Some typeError, \<lparr>capturedItems = [emptyObjectItem], goals = initialGoals\<rparr>) \<and>
   map currentCount (goals (snd (handleNewCapture (committed []) emptyObjectItem))) = [12, 18] \<and>
   map currentCount (goals (snd (handleNewCapture (committed []) rustItem))) = [12, 19] \<and>
   map currentCount (goals (snd (handleNewCapture (committed []) crackItem))) = [13, 18]"
proof -
  have c0: "committed [] = initialApp" by (simp add: committed_def)
  have g0: "goals initialApp = initialGoals" "capturedItems initialApp = []"
    by (simp_all add: initialApp_def)
  have e: "analysis emptyObjectItem = Some emptyObject" "defectType emptyObject = None"
    by (simp_all add: emptyObjectItem_def emptyObject_def)
  have r: "analysis rustItem = Some rustAnalysis" "defectType rustAnalysis = Some ''Surface Rust''"
    by (simp_all add: rustItem_def rustAnalysis_def)
  have c: "analysis crackItem = Some crackAnalysis" "defectType crackAnalysis = Some ''Crack''"
    by (simp_all add: crackItem_def crackAnalysis_def)
  have rr: "\<exists>p q s. ''Surface Rust'' = p @ q @ s \<and> toLowerCase q = ''rust''"
    unfolding includes_lower_iff [symmetric] by code_simp
  have cr: "\<not> (\<exists>p q s. ''Crack'' = p @ q @ s \<and> toLowerCase q = ''rust'')"
    unfolding includes_lower_iff [symmetric] by code_simp
  from commit_goal_update [of "[]" emptyObjectItem, unfolded e option.case] obtain a b where
    1: "goals (committed []) = [a, b]"
       "handleNewCapture (committed []) emptyObjectItem =
          (Some typeError,
           \<lparr>capturedItems = capturedItems (committed []) @ [emptyObjectItem], goals = [a, b]\<rparr>)"
    by blast
  from commit_goal_update [of "[]" rustItem, unfolded r option.case if_P [OF rr]]
  obtain a' b' where
    2: "goals (committed []) = [a', b']"
       "handleNewCapture (committed []) rustItem =
          (None, \<lparr>capturedItems = capturedItems (committed []) @ [rustItem],
                  goals = [a', b'\<lparr>currentCount := currentCount b' + 1\<rparr>]\<rparr>)"
    by blast
  from commit_goal_update [of "[]" crackItem, unfolded c option.case if_not_P [OF cr]]
  obtain a'' b'' where
    3: "goals (committed []) = [a'', b'']"
       "handleNewCapture (committed []) crackItem =
          (None, \<lparr>capturedItems = capturedItems (committed []) @ [crackItem],
                  goals = [a''\<lparr>currentCount := currentCount a'' + 1\<rparr>, b'']\<rparr>)"
    by blast
  from 1 have "handleNewCapture (committed []) emptyObjectItem =
     (Some typeError, \<lparr>capturedItems = [emptyObjectItem], goals = initialGoals\<rparr>)"
    by (simp add: c0 g0)
  moreover from 1 initial_counts
  have "map currentCount (goals (snd (handleNewCapture (committed []) emptyObjectItem))) = [12, 18]"
    by simp
  moreover from 2 initial_counts
  have "map currentCount (goals (snd (handleNewCapture (committed []) rustItem))) = [12, 19]"
    by simp
  moreover from 3 initial_counts
  have "map currentCount (goals (snd (handleNewCapture (committed []) crackItem))) = [13, 18]"
    by simp
  ultimately show ?thesis by blast
qed

text \<open>
  C10. An item with no analysis is committed like any other, with no error: it is
  appended to the store, the default goal \<open>g1\<close> gains exactly 1 and the rust goal \<open>g2\<close> is
  unchanged.
\<close>

theorem commit_without_analysis:
  "analysis item = None \<Longrightarrow>
   \<exists>a b. goals (committed items) = [a, b] \<and> goal_id a = ''g1'' \<and> goal_id b = ''g2'' \<and>
     handleNewCapture (committed items) item =
       (None,
        \<lparr>capturedItems = capturedItems (committed items) @ [item],
         goals = [a\<lparr>currentCount := currentCount a + 1\<rparr>, b]\<rparr>)"
proof -
  assume none: "analysis item = None"
  obtain a b where ab:
    "goals (committed items) = [a, b]" "goal_id a = ''g1''" "goal_id b = ''g2''"
    using goals_committed by blast
  have "isRust item = Inr False" using none by (simp add: isRust_def)
  then show ?thesis using ab
    by (simp add: handleNewCapture_def Let_def bump_def)
qed

theorem commit_without_analysis_witness:
  "analysis bareItem = None \<and>
   fst (handleNewCapture (committed []) bareItem) = None \<and>
   map currentCount (goals (snd (handleNewCapture (committed []) bareItem))) = [13, 18]"
proof -
  have h: "analysis bareItem = None" by (simp add: bareItem_def)
  from commit_without_analysis [OF h, of "[]"] obtain a b where
    1: "goals (committed []) = [a, b]"
       "handleNewCapture (committed []) bareItem =
          (None,
           \<lparr>capturedItems = capturedItems (committed []) @ [bareItem],
            goals = [a\<lparr>currentCount := currentCount a + 1\<rparr>, b]\<rparr>)"
    by blast
  from 1 initial_counts h show ?thesis by simp
qed

section \<open>The inference adapter fails soft\<close>

lemma analyze_total: "\<exists>r. analyzeFieldImage g j b c = Inr r"
  by (simp add: analyzeFieldImage_def split: sum.splits)

lemma analyze_fallback_on_failure:
  "g b (analyzePrompt c) = Inl e \<Longrightarrow> analyzeFieldImage g j b c = Inr fallbackAnalysis"
  by (simp add: analyzeFieldImage_def)

lemma analyze_fallback_on_parse:
  "g b (analyzePrompt c) = Inr t \<Longrightarrow> j (orEmptyObject t) = Inl e \<Longrightarrow>
   analyzeFieldImage g j b c = Inr fallbackAnalysis"
  by (simp add: analyzeFieldImage_def)

text \<open>
  C9. \<open>analyzeFieldImage\<close> never rejects: whatever the service and the parser do, it
  settles with a result. When the inference call fails, and also when its answer does not
  parse, that result is the fixed fallback: \<open>defectType\<close> \<open>Unknown\<close>, \<open>severity\<close> \<open>Low\<close>,
  \<open>confidence\<close> 0, \<open>isQualitySufficient\<close> false, and an instruction asking to retry.
\<close>

theorem analyze_fails_soft:
  "(\<exists>r. analyzeFieldImage g j b c = Inr r) \<and>
   (\<forall>e. g b (analyzePrompt c) = Inl e \<longrightarrow> analyzeFieldImage g j b c = Inr fallbackAnalysis) \<and>
   (\<forall>t e. g b (analyzePrompt c) = Inr t \<and> j (orEmptyObject t) = Inl e \<longrightarrow>
      analyzeFieldImage g j b c = Inr fallbackAnalysis) \<and>
   defectType fallbackAnalysis = Some ''Unknown'' \<and> severity fallbackAnalysis = Some Low \<and>
   confidence fallbackAnalysis = Some 0 \<and> \<not> isQualitySufficient fallbackAnalysis \<and>
   instructions fallbackAnalysis = Some ''Analysis service unavailable. Please retry.''"
proof -
  have "\<forall>e. g b (analyzePrompt c) = Inl e \<longrightarrow> analyzeFieldImage g j b c = Inr fallbackAnalysis"
    using analyze_fallback_on_failure by blast
  moreover have "\<forall>t e. g b (analyzePrompt c) = Inr t \<and> j (orEmptyObject t) = Inl e \<longrightarrow>
      analyzeFieldImage g j b c = Inr fallbackAnalysis"
    using analyze_fallback_on_parse by blast
  moreover have "defectType fallbackAnalysis = Some ''Unknown'' \<and>
     severity fallbackAnalysis = Some Low \<and>
     confidence fallbackAnalysis = Some 0 \<and> \<not> isQualitySufficient fallbackAnalysis \<and>
     instructions fallbackAnalysis = Some ''Analysis service unavailable. Please retry.''"
    by (simp add: fallbackAnalysis_def)
  ultimately show ?thesis using analyze_total by blast
qed

theorem analyze_fails_soft_witness:
  "failingService (Some ''AAAA'') (analyzePrompt ''Fuselage - Section 4A'') =
     Inl (JsError ''503 Service Unavailable'') \<and>
   analyzeFieldImage failingService noParse (Some ''AAAA'') ''Fuselage - Section 4A'' =
     Inr fallbackAnalysis"
proof -
  have f: "failingService (Some ''AAAA'') (analyzePrompt ''Fuselage - Section 4A'') =
     Inl (JsError ''503 Service Unavailable'')"
    by (simp add: failingService_def)
  from analyze_fails_soft [of failingService noParse "Some ''AAAA''" "''Fuselage - Section 4A''"]
  have "\<forall>e. failingService (Some ''AAAA'') (analyzePrompt ''Fuselage - Section 4A'') = Inl e \<longrightarrow>
      analyzeFieldImage failingService noParse (Some ''AAAA'') ''Fuselage - Section 4A'' =
        Inr fallbackAnalysis"
    by blast
  with f show ?thesis by blast
qed

section \<open>Saving a capture\<close>

lemma handleSave_item:
  "handleSave onCapture u t v = (thrown, Some item, v') \<Longrightarrow>
   (\<exists>a. analysis item = Some a \<and> sessionAnalysis v = Some a \<and>
        status item = (if isQualitySufficient a then Approved else Pending))"
  by (auto simp: handleSave_def Let_def split: option.splits if_splits)

lemma items_handleNewCapture:
  "capturedItems (snd (handleNewCapture app item)) = capturedItems app @ [item]"
  by (cases "isRust item") (simp_all add: handleNewCapture_def Let_def)

lemma stored_snoc: "stored (xs @ [x]) = saveInto (stored xs) x"
  by (simp add: stored_def)

lemma stored_items_ok: "item \<in> set (capturedItems (stored saves)) \<Longrightarrow> itemOK item"
proof (induction saves arbitrary: item rule: rev_induct)
  case Nil
  then show ?case by (simp add: stored_def initialApp_def)
next
  case (snoc x xs)
  obtain u t v where x: "x = (u, t, v)" by (cases x) auto
  obtain thrown io v' where
    hs: "handleSave (\<lambda>item. fst (handleNewCapture (stored xs) item)) u t v = (thrown, io, v')"
    by (cases "handleSave (\<lambda>item. fst (handleNewCapture (stored xs) item)) u t v") auto
  show ?case
  proof (cases io)
    case None
    then show ?thesis using snoc hs by (simp add: stored_snoc saveInto_def x)
  next
    case (Some it)
    from handleSave_item [OF hs [unfolded Some]] have "itemOK it" by (auto simp: itemOK_def)
    moreover have "capturedItems (stored (xs @ [x])) = capturedItems (stored xs) @ [it]"
      using hs Some by (simp add: stored_snoc saveInto_def x items_handleNewCapture)
    ultimately show ?thesis using snoc by auto
  qed
qed

lemma save_without_analysis:
  "sessionAnalysis v = None \<Longrightarrow> handleSave onCapture u t v = (None, None, v)"
  by (simp add: handleSave_def split: option.splits)

text \<open>
  C2. Every item in the store filled by \<open>handleSave\<close> carries an analysis, and its status
  is \<open>approved\<close> exactly when that analysis has \<open>isQualitySufficient\<close> true and \<open>pending\<close>
  exactly when it has it false. So an approved item always has a non-null analysis that
  passes the quality check.
\<close>

theorem stored_items_status:
  "\<forall>item \<in> set (capturedItems (stored saves)).
     \<exists>a. analysis item = Some a \<and>
         (status item = Approved \<longleftrightarrow> isQualitySufficient a) \<and>
         (status item = Pending \<longleftrightarrow> \<not> isQualitySufficient a)"
proof
  fix item
  assume "item \<in> set (capturedItems (stored saves))"
  then have "itemOK item" by (rule stored_items_ok)
  then show "\<exists>a. analysis item = Some a \<and>
         (status item = Approved \<longleftrightarrow> isQualitySufficient a) \<and>
         (status item = Pending \<longleftrightarrow> \<not> isQualitySufficient a)"
    by (auto simp: itemOK_def split: option.splits)
qed

theorem stored_items_status_witness:
  "length (capturedItems (stored sampleSaves)) = 2 \<and>
   (\<exists>a. analysis (capturedItems (stored sampleSaves) ! 0) = Some a \<and> isQualitySufficient a \<and>
        status (capturedItems (stored sampleSaves) ! 0) = Approved) \<and>
   (\<exists>a. analysis (capturedItems (stored sampleSaves) ! 1) = Some a \<and> \<not> isQualitySufficient a \<and>
        status (capturedItems (stored sampleSaves) ! 1) = Pending)"
proof -
  have len: "length (capturedItems (stored sampleSaves)) = 2" by code_simp
  have s0: "status (capturedItems (stored sampleSaves) ! 0) = Approved" by code_simp
  have s1: "status (capturedItems (stored sampleSaves) ! 1) = Pending" by code_simp
  have m0: "capturedItems (stored sampleSaves) ! 0 \<in> set (capturedItems (stored sampleSaves))"
    using len by simp
  have m1: "capturedItems (stored sampleSaves) ! 1 \<in> set (capturedItems (stored sampleSaves))"
    using len by simp
  from stored_items_status [of sampleSaves] m0 s0
  have "\<exists>a. analysis (capturedItems (stored sampleSaves) ! 0) = Some a \<and> isQualitySufficient a"
    by fastforce
  moreover from stored_items_status [of sampleSaves] m1 s1
  have "\<exists>a. analysis (capturedItems (stored sampleSaves) ! 1) = Some a \<and> \<not> isQualitySufficient a"
    by fastforce
  ultimately show ?thesis using len s0 s1 by blast
qed

text \<open>
  C8 as stated: a save with no analysis is rejected with an error the caller can observe.
  It is not: the handler returns normally.
\<close>

theorem save_without_analysis_not_rejected:
  "sessionAnalysis capturedView = None \<and>
   fst (handleSave appOnCapture ''u1'' 1000 capturedView) = None \<and>
   handleSave appOnCapture ''u1'' 1000 capturedView = (None, None, capturedView)"
proof -
  have n: "sessionAnalysis capturedView = None"
    by (simp add: capturedView_def handleCapture_def initialView_def)
  then have "handleSave appOnCapture ''u1'' 1000 capturedView = (None, None, capturedView)"
    by (rule save_without_analysis)
  with n show ?thesis by simp
qed

text \<open>
  C8, amended. A save with no analysis is ignored without any error: whatever
  \<open>onCapture\<close> it was given, \<open>handleSave\<close> returns normally, hands no item to it and
  leaves the state as it was. The Save control is not on screen in such a state, and
  dispatching the click changes nothing.
\<close>

theorem save_without_analysis_ignored:
  "sessionAnalysis v = None \<Longrightarrow>
   handleSave onCapture uuid now v = (None, None, v) \<and> \<not> decisionShown v \<and>
   dispatch v (ClickSave uuid now) = v"
  by (simp add: save_without_analysis decisionShown_def)

theorem save_without_analysis_ignored_witness:
  "sessionAnalysis capturedView = None \<and>
   handleSave appOnCapture ''u1'' 1000 capturedView = (None, None, capturedView) \<and>
   dispatch capturedView (ClickSave ''u1'' 1000) = capturedView"
proof -
  have n: "sessionAnalysis capturedView = None"
    by (simp add: capturedView_def handleCapture_def initialView_def)
  from save_without_analysis_ignored [OF n, of appOnCapture "''u1''" 1000] n
  show ?thesis by blast
qed

section \<open>Analysis and augmentation within a session\<close>

lemma afterAnalysis_snoc_other:
  "\<not> isAugmentRequest e \<Longrightarrow> afterAnalysis b (es @ [e]) = afterAnalysis b es"
  by (induction b es rule: afterAnalysis.induct) (cases e; simp)+

lemma afterAnalysis_snoc_pair:
  "afterAnalysis b (es @ [AnalyzeSettled r, AugmentRequested x p]) = afterAnalysis b es"
  by (induction b es rule: afterAnalysis.induct) simp_all

lemma sessionInv_start: "justCaptured v \<Longrightarrow> sessionInv v v"
  by (simp add: sessionInv_def justCaptured_def augmentRequests_def expectedAugments_def)

lemma sessionInv_step:
  assumes "sessionInv v0 v" "\<not> isDisposal e"
  shows "sessionInv v0 (dispatch v e)"
proof -
  from assms(1) obtain new where
    c: "truthy (capturedImage v)" and
    a: "isAnalyzing v \<longleftrightarrow> analyzePending v \<noteq> None" and
    p: "analyzePending v \<noteq> None \<longrightarrow> sessionAnalysis v = None" and
    e: "effects v = effects v0 @ new" and
    n: "augmentRequests new = expectedAugments (sessionAnalysis v)" and
    o: "afterAnalysis False new"
    unfolding sessionInv_def by blast
  show ?thesis
  proof (cases e)
    case (SelectContext x)
    then show ?thesis using assms(1) by (simp add: sessionInv_def)
  next
    case ToggleGuidance
    then show ?thesis using assms(1) c by (simp add: liveShown_def)
  next
    case (ClickCapture x)
    then show ?thesis using assms(1) c by (simp add: liveShown_def)
  next
    case ClickAnalyze
    show ?thesis
    proof (cases "analyzeShown v")
      case False
      then show ?thesis using assms(1) ClickAnalyze by simp
    next
      case True
      then obtain img where img: "capturedImage v = Some img" "img \<noteq> []" and an: "sessionAnalysis v = None"
        by (cases "capturedImage v") (auto simp: analyzeShown_def)
      have "effects (handleAnalyze v) = effects v0 @ (new @ [AnalyzeRequested (afterComma img) (machineContext v)])"
        using img e by (simp add: handleAnalyze_def)
      moreover have "augmentRequests (new @ [AnalyzeRequested (afterComma img) (machineContext v)]) = expectedAugments None"
        using n an by (simp add: augmentRequests_def)
      moreover have "afterAnalysis False (new @ [AnalyzeRequested (afterComma img) (machineContext v)])"
        using o by (simp add: afterAnalysis_snoc_other)
      ultimately show ?thesis using ClickAnalyze True img
        unfolding sessionInv_def by (simp add: handleAnalyze_def) 
    qed
  next
    case (AnalyzeResolved r)
    show ?thesis
    proof (cases "analyzePending v")
      case None
      then show ?thesis using assms(1) AnalyzeResolved by simp
    next
      case (Some b)
      with p have an: "sessionAnalysis v = None" by simp
      with n have n0: "augmentRequests new = 0" by (simp add: expectedAugments_def)
      show ?thesis
      proof (cases "augmentWanted r")
        case True
        then have d: "dispatch v e = handleAugment b (defectType r)
           (v\<lparr>sessionAnalysis := Some r, isAnalyzing := False, analyzePending := None,
                  effects := effects v @ [AnalyzeSettled r]\<rparr>)"
          using AnalyzeResolved Some by (auto simp add: handleAnalyze_resume_def augmentWanted_def Let_def)
        have "effects (dispatch v e) = effects v0 @ (new @ [AnalyzeSettled r, AugmentRequested b (''defect: '' @ spliced (defectType r))])"
          unfolding d using e by (simp add: handleAugment_def)
        moreover have "augmentRequests (new @ [AnalyzeSettled r, AugmentRequested b (''defect: '' @ spliced (defectType r))]) = expectedAugments (Some r)"
          using n0 True by (simp add: augmentRequests_def expectedAugments_def)
        moreover have "afterAnalysis False (new @ [AnalyzeSettled r, AugmentRequested b (''defect: '' @ spliced (defectType r))])"
          using o by (simp add: afterAnalysis_snoc_pair)
        ultimately show ?thesis using c unfolding sessionInv_def
          by (simp add: d handleAugment_def)
      next
        case False
        then have d: "dispatch v e = 
           (v\<lparr>sessionAnalysis := Some r, isAnalyzing := False, analyzePending := None,
                  effects := effects v @ [AnalyzeSettled r]\<rparr>)"
          using AnalyzeResolved Some by (auto simp add: handleAnalyze_resume_def augmentWanted_def Let_def)
        have "effects (dispatch v e) = effects v0 @ (new @ [AnalyzeSettled r])"
          unfolding d using e by simp
        moreover have "augmentRequests (new @ [AnalyzeSettled r]) = expectedAugments (Some r)"
          using n0 False by (simp add: augmentRequests_def expectedAugments_def)
        moreover have "afterAnalysis False (new @ [AnalyzeSettled r])"
          using o by (simp add: afterAnalysis_snoc_other)
        ultimately show ?thesis using c unfolding sessionInv_def
          by (simp add: d)
      qed
    qed
  next
    case (OverlayResolved ov)
    show ?thesis
    proof (cases "0 < augmentPending v")
      case False
      then show ?thesis using assms(1) OverlayResolved by simp
    next
      case True
      have "effects (dispatch v e) = effects v0 @ (new @ [AugmentSettled ov])"
        using True OverlayResolved e by (simp add: handleAugment_resume_def)
      moreover have "augmentRequests (new @ [AugmentSettled ov]) = expectedAugments (sessionAnalysis v)"
        using n by (simp add: augmentRequests_def)
      moreover have "afterAnalysis False (new @ [AugmentSettled ov])"
        using o by (simp add: afterAnalysis_snoc_other)
      ultimately show ?thesis using c a p True OverlayResolved unfolding sessionInv_def
        by (simp add: handleAugment_resume_def)
    qed
  next
    case ToggleOverlay
    then show ?thesis using assms(1) by (simp add: sessionInv_def)
  next
    case (ClickSave u t)
    then show ?thesis using assms(2) by (simp add: isDisposal_def)
  next
    case ClickDiscard
    then show ?thesis using assms(2) by (simp add: isDisposal_def)
  qed
qed

lemma run_snoc: "run v (evs @ [e]) = dispatch (run v evs) e"
  by (simp add: run_def)

lemma sessionInv_run:
  "justCaptured v \<Longrightarrow> \<forall>e\<in>set evs. \<not> isDisposal e \<Longrightarrow> sessionInv v (run v evs)"
proof (induction evs rule: rev_induct)
  case Nil
  then show ?case by (simp add: run_def sessionInv_start)
next
  case (snoc e evs)
  then show ?case by (simp add: run_snoc sessionInv_step)
qed

lemma viewInv_initial: "viewInv initialView"
  by (simp add: viewInv_def initialView_def)

lemma viewInv_step: "viewInv v \<Longrightarrow> viewInv (dispatch v e)"
proof (cases e)
  case (SelectContext c)
  assume "viewInv v"
  with SelectContext show ?thesis by (simp add: viewInv_def)
next
  case ToggleGuidance
  assume "viewInv v"
  with ToggleGuidance show ?thesis by (simp add: viewInv_def)
next
  case (ClickCapture d)
  assume "viewInv v"
  with ClickCapture show ?thesis
    by (auto simp: viewInv_def liveShown_def handleCapture_def)
next
  case ClickAnalyze
  assume "viewInv v"
  with ClickAnalyze show ?thesis
    by (cases "capturedImage v") (auto simp: viewInv_def analyzeShown_def handleAnalyze_def)
next
  case (AnalyzeResolved r)
  assume "viewInv v"
  with AnalyzeResolved show ?thesis
    by (cases "analyzePending v")
       (auto simp: viewInv_def handleAnalyze_resume_def handleAugment_def Let_def)
next
  case (OverlayResolved ov)
  assume "viewInv v"
  with OverlayResolved show ?thesis by (simp add: viewInv_def handleAugment_resume_def)
next
  case ToggleOverlay
  assume "viewInv v"
  with ToggleOverlay show ?thesis by (simp add: viewInv_def)
next
  case (ClickSave u t)
  assume "viewInv v"
  with ClickSave show ?thesis
    by (auto simp: viewInv_def decisionShown_def handleSave_def handleReset_def Let_def
          split: option.splits)
next
  case ClickDiscard
  assume "viewInv v"
  with ClickDiscard show ?thesis
    by (auto simp: viewInv_def decisionShown_def handleReset_def)
qed

lemma viewInv_run: "viewInv (run initialView evs)"
  by (induction evs rule: rev_induct) (simp_all add: run_def viewInv_initial viewInv_step)

lemma capture_starts_session:
  assumes "viewInv v" "liveShown v" "dataUrl \<noteq> []"
  shows "justCaptured (dispatch v (ClickCapture dataUrl))"
proof -
  from assms(2) have nt: "\<not> truthy (capturedImage v)" by (simp add: liveShown_def)
  with assms(1) have "sessionAnalysis v = None" "analyzePending v = None" "\<not> isAnalyzing v"
    by (auto simp: viewInv_def)
  then show ?thesis using assms(2,3) by (simp add: justCaptured_def handleCapture_def)
qed

text \<open>
  C3. Take any run of the component up to a moment when the live view is on screen; a
  frame is captured there, which starts a session, and the session runs through any
  events short of its disposal by save or discard. The number of augmentation requests
  issued in the session is 1 when the session has obtained an analysis result with
  \<open>defectType\<close> other than \<open>None\<close> and \<open>isQualitySufficient\<close> true, and 0 otherwise (no
  result yet, or a result with \<open>defectType\<close> \<open>None\<close> or insufficient quality). Every
  augmentation request in the session's log comes after the settlement of an analysis.
\<close>

theorem augment_once_after_analysis:
  assumes "liveShown (run initialView pre)" and "dataUrl \<noteq> []"
    and "\<forall>e\<in>set evs. \<not> isDisposal e"
  shows "let v = dispatch (run initialView pre) (ClickCapture dataUrl);
             new = drop (length (effects v)) (effects (run v evs))
         in augmentRequests new =
              (case sessionAnalysis (run v evs) of
                 None \<Rightarrow> 0
               | Some r \<Rightarrow>
                   if defectType r \<noteq> Some ''None'' \<and> isQualitySufficient r then 1 else 0) \<and>
            afterAnalysis False new"
proof -
  have "justCaptured (dispatch (run initialView pre) (ClickCapture dataUrl))"
    using viewInv_run assms(1,2) by (rule capture_starts_session)
  from sessionInv_run [OF this assms(3)] show ?thesis
    unfolding sessionInv_def Let_def
    by (auto simp: expectedAugments_def augmentWanted_def split: option.splits)
qed

theorem augment_once_after_analysis_witness:
  "liveShown (run initialView []) \<and>
   dispatch (run initialView []) (ClickCapture ''data:image/jpeg;base64,AAAA'') = capturedView \<and>
   augmentRequests (effects (run capturedView
      [ClickAnalyze, AnalyzeResolved rustAnalysis, OverlayResolved None, ClickAnalyze])) = 1 \<and>
   augmentRequests (effects (run capturedView [ClickAnalyze, AnalyzeResolved crackAnalysis])) = 0 \<and>
   augmentRequests (effects (run capturedView [ClickAnalyze, AnalyzeResolved cleanAnalysis])) = 0"
proof -
  have ls: "liveShown (run initialView [])" by code_simp
  have cv: "dispatch (run initialView []) (ClickCapture ''data:image/jpeg;base64,AAAA'') = capturedView"
    using ls by (simp add: capturedView_def run_def)
  have ne: "''data:image/jpeg;base64,AAAA'' \<noteq> []" by simp
  have e0: "length (effects capturedView) = 0" by code_simp
  have nd: "\<forall>e\<in>set [ClickAnalyze, AnalyzeResolved rustAnalysis, OverlayResolved None, ClickAnalyze].
              \<not> isDisposal e"
       "\<forall>e\<in>set [ClickAnalyze, AnalyzeResolved crackAnalysis]. \<not> isDisposal e"
       "\<forall>e\<in>set [ClickAnalyze, AnalyzeResolved cleanAnalysis]. \<not> isDisposal e"
    by (simp_all add: isDisposal_def)
  have a1: "sessionAnalysis (run capturedView
      [ClickAnalyze, AnalyzeResolved rustAnalysis, OverlayResolved None, ClickAnalyze]) = Some rustAnalysis"
    by code_simp
  have a2: "sessionAnalysis (run capturedView [ClickAnalyze, AnalyzeResolved crackAnalysis]) =
      Some crackAnalysis"
    by code_simp
  have a3: "sessionAnalysis (run capturedView [ClickAnalyze, AnalyzeResolved cleanAnalysis]) =
      Some cleanAnalysis"
    by code_simp
  have q: "defectType rustAnalysis \<noteq> Some ''None'' \<and> isQualitySufficient rustAnalysis"
      "\<not> isQualitySufficient crackAnalysis" "defectType cleanAnalysis = Some ''None''"
    by (simp_all add: rustAnalysis_def crackAnalysis_def cleanAnalysis_def)
  from augment_once_after_analysis [OF ls ne nd(1)] augment_once_after_analysis [OF ls ne nd(2)]
    augment_once_after_analysis [OF ls ne nd(3)]
  show ?thesis using ls cv q by (simp add: e0 a1 a2 a3 Let_def)
qed

section \<open>Polling the video job\<close>

lemma pollingLoop_run:
  "\<forall>k<n. \<exists>h e. handleAfter poll k operation env = (Inr h, e) \<and> \<not> op_done h \<Longrightarrow>
   handleAfter poll n operation env = (r, env') \<Longrightarrow>
   (case r of Inl err \<Rightarrow> True | Inr h \<Rightarrow> op_done h) \<Longrightarrow>
   pollingLoop poll operation env steps = Some (r, env', steps @ pollSteps n)"
proof (induction n arbitrary: operation env steps)
  case 0
  then show ?case by (subst pollingLoop.simps) (auto)
next
  case (Suc n)
  from Suc.prems(1)[rule_format, of 0] have nd: "\<not> op_done operation" by simp
  obtain x e1 where p: "poll env operation = (x, e1)" by (cases "poll env operation") auto
  show ?case
  proof (cases x)
    case (Inl err)
    with p Suc.prems(2) have "r = Inl err" "env' = e1" by simp_all
    moreover have "n = 0"
    proof (rule ccontr)
      assume "n \<noteq> 0"
      then have "Suc 0 < Suc n" by simp
      from Suc.prems(1)[rule_format, OF this] p Inl show False by simp
    qed
    ultimately show ?thesis using nd p Inl by (subst pollingLoop.simps) simp
  next
    case (Inr h)
    have 1: "\<forall>k<n. \<exists>h' e. handleAfter poll k h e1 = (Inr h', e) \<and> \<not> op_done h'"
    proof (intro allI impI)
      fix k assume "k < n"
      then have "Suc k < Suc n" by simp
      from Suc.prems(1)[rule_format, OF this] p Inr
      show "\<exists>h' e. handleAfter poll k h e1 = (Inr h', e) \<and> \<not> op_done h'" by simp
    qed
    have 2: "handleAfter poll n h e1 = (r, env')" using Suc.prems(2) p Inr by simp
    from Suc.IH[OF 1 2 Suc.prems(3)]
    have "pollingLoop poll h e1 (steps @ [Sleep 5000, Poll]) = Some (r, env', (steps @ [Sleep 5000, Poll]) @ pollSteps n)" .
    then show ?thesis using nd p Inr by (subst pollingLoop.simps) simp
  qed
qed

lemma pollSteps_counts:
  "length (filter (\<lambda>s. s = Poll) (pollSteps n)) = n \<and>
   length (filter (\<lambda>s. s = Submit) (pollSteps n)) = 0 \<and>
   filter (\<lambda>s. s \<noteq> Poll) (pollSteps n) = replicate n (Sleep 5000)"
  by (induction n) simp_all

lemma video_submit_fails:
  "generateVideos env b p = (Inl err, env1) \<Longrightarrow>
   generateInspectionVideo generateVideos poll key b p env = Some (Inl err, env1, [Submit, LogError])"
  by (simp add: generateInspectionVideo_def)

lemma video_done:
  assumes "generateVideos env b p = (Inr op0, env1)"
    and "\<forall>k<n. \<exists>h e. handleAfter poll k op0 env1 = (Inr h, e) \<and> \<not> op_done h"
    and "handleAfter poll n op0 env1 = (Inr h, env2)" and "op_done h"
  shows "generateInspectionVideo generateVideos poll key b p env =
           Some (Inr (videoLink key h), env2, Submit # pollSteps n)"
proof -
  have "pollingLoop poll op0 env1 [Submit] = Some (Inr h, env2, [Submit] @ pollSteps n)"
    using assms(2,3,4) by (intro pollingLoop_run) simp_all
  then show ?thesis using assms(1) by (simp add: generateInspectionVideo_def)
qed

lemma video_poll_fails:
  assumes "generateVideos env b p = (Inr op0, env1)"
    and "\<forall>k<n. \<exists>h e. handleAfter poll k op0 env1 = (Inr h, e) \<and> \<not> op_done h"
    and "handleAfter poll n op0 env1 = (Inl err, env2)"
  shows "generateInspectionVideo generateVideos poll key b p env =
           Some (Inl err, env2, Submit # pollSteps n @ [LogError])"
proof -
  have "pollingLoop poll op0 env1 [Submit] = Some (Inl err, env2, [Submit] @ pollSteps n)"
    using assms(2,3) by (intro pollingLoop_run) simp_all
  then show ?thesis using assms(1) by (simp add: generateInspectionVideo_def)
qed

text \<open>
  C4. \<open>generateInspectionVideo\<close> submits once. If the submission fails, the error is
  logged and thrown again, with no poll made. Otherwise, when the handles seen after
  0, ..., n-1 polls are not done, the function sleeps 5000 ms before each of n polls, each
  poll replacing the handle, and then: if the handle after n polls is done it returns, with
  the link built from that handle's video URI (the URI followed by \<open>&key=\<close> and the API
  key) or null when the handle has no URI or an empty one; if the n-th poll fails its error
  is logged and thrown again. The steps are one submit and exactly n polls.
\<close>

theorem video_job_polling:
  "(\<forall>err env1. generateVideos env b p = (Inl err, env1) \<longrightarrow>
      generateInspectionVideo generateVideos poll key b p env =
        Some (Inl err, env1, [Submit, LogError])) \<and>
   (\<forall>op0 env1 n.
      generateVideos env b p = (Inr op0, env1) \<and>
      (\<forall>k<n. \<exists>h e. handleAfter poll k op0 env1 = (Inr h, e) \<and> \<not> op_done h) \<longrightarrow>
      (\<forall>h env2. handleAfter poll n op0 env1 = (Inr h, env2) \<and> op_done h \<longrightarrow>
         generateInspectionVideo generateVideos poll key b p env =
           Some (Inr (videoLink key h), env2, Submit # pollSteps n)) \<and>
      (\<forall>err env2. handleAfter poll n op0 env1 = (Inl err, env2) \<longrightarrow>
         generateInspectionVideo generateVideos poll key b p env =
           Some (Inl err, env2, Submit # pollSteps n @ [LogError]))) \<and>
   (\<forall>n. length (filter (\<lambda>s. s = Poll) (pollSteps n)) = n \<and>
        length (filter (\<lambda>s. s = Submit) (Submit # pollSteps n)) = 1 \<and>
        filter (\<lambda>s. s \<noteq> Poll) (pollSteps n) = replicate n (Sleep 5000)) \<and>
   (\<forall>h. videoLink key h =
      (case videoUri h of
         None \<Rightarrow> None
       | Some u \<Rightarrow> if u = [] then None else Some (u @ ''&key='' @ key)))"
proof (intro conjI)
  show "\<forall>err env1. generateVideos env b p = (Inl err, env1) \<longrightarrow>
      generateInspectionVideo generateVideos poll key b p env =
        Some (Inl err, env1, [Submit, LogError])"
    by (simp add: video_submit_fails)
  show "\<forall>op0 env1 n.
      generateVideos env b p = (Inr op0, env1) \<and>
      (\<forall>k<n. \<exists>h e. handleAfter poll k op0 env1 = (Inr h, e) \<and> \<not> op_done h) \<longrightarrow>
      (\<forall>h env2. handleAfter poll n op0 env1 = (Inr h, env2) \<and> op_done h \<longrightarrow>
         generateInspectionVideo generateVideos poll key b p env =
           Some (Inr (videoLink key h), env2, Submit # pollSteps n)) \<and>
      (\<forall>err env2. handleAfter poll n op0 env1 = (Inl err, env2) \<longrightarrow>
         generateInspectionVideo generateVideos poll key b p env =
           Some (Inl err, env2, Submit # pollSteps n @ [LogError]))"
    by (intro allI impI conjI; elim conjE) (rule video_done video_poll_fails; assumption)+
  show "\<forall>n. length (filter (\<lambda>s. s = Poll) (pollSteps n)) = n \<and>
        length (filter (\<lambda>s. s = Submit) (Submit # pollSteps n)) = 1 \<and>
        filter (\<lambda>s. s \<noteq> Poll) (pollSteps n) = replicate n (Sleep 5000)"
    using pollSteps_counts by simp
  show "\<forall>h. videoLink key h =
      (case videoUri h of
         None \<Rightarrow> None
       | Some u \<Rightarrow> if u = [] then None else Some (u @ ''&key='' @ key))"
    by (simp add: videoLink_def split: option.splits)
qed

lemma mock_handles:
  "handleAfter mockPoll 0 pendingOp 0 = (Inr pendingOp, 0)"
  "handleAfter mockPoll 1 pendingOp 0 = (Inr pendingOp, 1)"
  "handleAfter mockPoll 2 pendingOp 0 = (Inr pendingOp, 2)"
  "handleAfter mockPoll 3 pendingOp 0 = (Inr finishedOp, 3)"
  by code_simp+

theorem video_job_polling_witness:
  "generateInspectionVideo mockSubmit mockPoll ''K'' (Some ''AAAA'') ''orbit'' 0 =
     Some (Inr (Some ''https://video.example/v1&key=K''), 3,
           [Submit, Sleep 5000, Poll, Sleep 5000, Poll, Sleep 5000, Poll])"
proof -
  have s: "mockSubmit 0 (Some ''AAAA'') ''orbit'' = (Inr pendingOp, 0)"
    by (simp add: mockSubmit_def)
  have np: "\<not> op_done pendingOp" by (simp add: pendingOp_def)
  have nd: "\<forall>k<3. \<exists>h e. handleAfter mockPoll k pendingOp 0 = (Inr h, e) \<and> \<not> op_done h"
  proof (intro allI impI)
    fix k :: nat assume "k < 3"
    then consider "k = 0" | "k = 1" | "k = 2" by linarith
    then show "\<exists>h e. handleAfter mockPoll k pendingOp 0 = (Inr h, e) \<and> \<not> op_done h"
    proof cases
      case 1
      with mock_handles(1) np show ?thesis by blast
    next
      case 2
      with mock_handles(2) np show ?thesis by blast
    next
      case 3
      with mock_handles(3) np show ?thesis by blast
    qed
  qed
  have d: "handleAfter mockPoll 3 pendingOp 0 = (Inr finishedOp, 3) \<and> op_done finishedOp"
    using mock_handles(4) by (simp add: finishedOp_def)
  have l: "videoLink ''K'' finishedOp = Some ''https://video.example/v1&key=K''"
    by (simp add: videoLink_def finishedOp_def)
  have p: "pollSteps 3 = [Sleep 5000, Poll, Sleep 5000, Poll, Sleep 5000, Poll]"
    by (simp add: numeral_3_eq_3)
  from video_job_polling [of mockSubmit 0 "Some ''AAAA''" "''orbit''" mockPoll "''K''"] s nd d
  have "generateInspectionVideo mockSubmit mockPoll ''K'' (Some ''AAAA'') ''orbit'' 0 =
           Some (Inr (videoLink ''K'' finishedOp), 3, Submit # pollSteps 3)"
    by blast
  then show ?thesis by (simp add: l p)
qed

section \<open>Rounding to a double\<close>

lemma bitLength_bounds:
  "0 < n \<Longrightarrow> 0 < bitLength n \<and> 2 ^ nat (bitLength n - 1) \<le> n \<and> n < 2 ^ nat (bitLength n)"
proof (induction n rule: bitLength.induct)
  case (1 n)
  show ?case
  proof (cases "n = 1")
    case True
    have "bitLength 1 = 1" by (simp add: bitLength.simps [of 1] bitLength.simps [of 0])
    with True show ?thesis by simp
  next
    case False
    with "1.prems" have h: "0 < n div 2" by simp
    from "1.IH" "1.prems" h have ih: "0 < bitLength (n div 2)"
      "2 ^ nat (bitLength (n div 2) - 1) \<le> n div 2" "n div 2 < 2 ^ nat (bitLength (n div 2))"
      by simp_all
    have b: "bitLength n = 1 + bitLength (n div 2)"
      using "1.prems" by (simp add: bitLength.simps [of n])
    have e1: "nat (bitLength n - 1) = Suc (nat (bitLength (n div 2) - 1))"
      using b ih(1) by simp
    have e2: "nat (bitLength n) = Suc (nat (bitLength (n div 2)))"
      using b ih(1) by simp
    have "2 * 2 ^ nat (bitLength (n div 2) - 1) \<le> 2 * (n div 2)" using ih(2) by simp
    also have "\<dots> \<le> n" by simp
    finally have lo: "2 ^ nat (bitLength n - 1) \<le> n" by (simp add: e1)
    have "n div 2 + 1 \<le> 2 ^ nat (bitLength (n div 2))" using ih(3) by simp
    then have "2 * (n div 2 + 1) \<le> 2 * 2 ^ nat (bitLength (n div 2))" by simp
    moreover have "n < 2 * (n div 2 + 1)" by simp
    ultimately have hi: "n < 2 ^ nat (bitLength n)" by (simp add: e2)
    show ?thesis using b ih(1) lo hi by simp
  qed
qed

lemma bitLength_powi:
  assumes "0 < n"
  shows "(2::rat) powi (bitLength n - 1) \<le> of_int n" and "of_int n < (2::rat) powi (bitLength n)"
proof -
  from bitLength_bounds [OF assms] have p: "0 < bitLength n"
    and lo: "2 ^ nat (bitLength n - 1) \<le> n" and hi: "n < 2 ^ nat (bitLength n)" by simp_all
  have "(of_int (2 ^ nat (bitLength n - 1)) :: rat) \<le> of_int n" using lo by (simp only: of_int_le_iff)
  then show "(2::rat) powi (bitLength n - 1) \<le> of_int n"
    using p by (simp add: power_int_def)
  have "(of_int n :: rat) < of_int (2 ^ nat (bitLength n))" using hi by (simp only: of_int_less_iff)
  then show "of_int n < (2::rat) powi (bitLength n)"
    using p by (simp add: power_int_def)
qed

lemma ilog2_bounds:
  assumes "0 < x"
  shows "2 powi (ilog2 x) \<le> x" and "x < 2 powi (ilog2 x + 1)"
proof -
  obtain p q where pq: "quotient_of x = (p, q)" by (cases "quotient_of x") auto
  then have q: "0 < q" and x: "x = of_int p / of_int q"
    using quotient_of_denom_pos quotient_of_div by blast+
  from x assms q have p: "0 < p" by (simp add: zero_less_divide_iff)
  define a where "a = bitLength p - bitLength q"
  have il: "ilog2 x = (if 2 powi a \<le> x then a else a - 1)"
    by (simp add: ilog2_def pq a_def Let_def)
  have qpos: "(0::rat) < of_int q" using q by simp
  have "x < (2::rat) powi (bitLength p) / 2 powi (bitLength q - 1)"
  proof -
    have "x \<le> of_int p / 2 powi (bitLength q - 1)"
      unfolding x using bitLength_powi(1) [OF q] p qpos
      by (intro divide_left_mono) (auto intro!: mult_pos_pos)
    also have "\<dots> < 2 powi (bitLength p) / 2 powi (bitLength q - 1)"
      using bitLength_powi(2) [OF p] by (intro divide_strict_right_mono) simp_all
    finally show ?thesis .
  qed
  then have up: "x < 2 powi (a + 1)"
    by (simp add: a_def power_int_diff [symmetric] algebra_simps)
  have "(2::rat) powi (bitLength p - 1) / 2 powi (bitLength q) < x"
  proof -
    have "(2::rat) powi (bitLength p - 1) / 2 powi (bitLength q) \<le> of_int p / 2 powi (bitLength q)"
      using bitLength_powi(1) [OF p] by (intro divide_right_mono) simp_all
    also have "\<dots> < x"
      unfolding x using bitLength_powi(2) [OF q] p qpos
      by (intro divide_strict_left_mono) (auto intro!: mult_pos_pos)
    finally show ?thesis .
  qed
  then have lo: "2 powi (a - 1) < x"
    by (simp add: a_def power_int_diff [symmetric] algebra_simps)
  show "2 powi (ilog2 x) \<le> x" using il lo by (auto simp: less_imp_le)
  show "x < 2 powi (ilog2 x + 1)" using il up by (auto simp: not_le)
qed

lemma roundTiesToEven_err: "\<bar>of_int (roundTiesToEven t) - t\<bar> \<le> 1 / 2"
proof -
  have "of_int \<lfloor>t\<rfloor> \<le> t" "t < of_int \<lfloor>t\<rfloor> + 1" by linarith+
  then show ?thesis by (auto simp: roundTiesToEven_def Let_def abs_le_iff)
qed

lemma fl64_err:
  assumes "2 powi (- 1022) \<le> x"
  shows "\<bar>fl64 x - x\<bar> \<le> x / 2 ^ 53"
proof -
  have pos: "0 < x" using assms by (rule less_le_trans [rotated]) simp
  have "2 powi (- 1022) < (2::rat) powi (ilog2 x + 1)"
    using assms ilog2_bounds(2) [OF pos] by simp
  then have "- 1022 < ilog2 x + 1"
  proof (rule contrapos_pp)
    assume "\<not> - 1022 < ilog2 x + 1"
    then have "ilog2 x + 1 \<le> - 1022" by simp
    then have "(2::rat) powi (ilog2 x + 1) \<le> 2 powi (- 1022)"
      by (intro power_int_increasing) simp_all
    then show "\<not> 2 powi (- 1022) < (2::rat) powi (ilog2 x + 1)" by simp
  qed
  then have m: "max (ilog2 x) (- 1022) = ilog2 x" by simp
  define u :: rat where "u = 2 powi (ilog2 x - 52)"
  have upos: "0 < u" by (simp add: u_def)
  have f: "fl64 x = of_int (roundTiesToEven (x / u)) * u"
    using pos by (simp add: fl64_def m u_def Let_def)
  have "fl64 x - x = (of_int (roundTiesToEven (x / u)) - x / u) * u"
    using upos by (simp add: f field_simps)
  then have "\<bar>fl64 x - x\<bar> = \<bar>of_int (roundTiesToEven (x / u)) - x / u\<bar> * u"
    using upos by (simp add: abs_mult)
  also have "\<dots> \<le> 1 / 2 * u"
    using roundTiesToEven_err [of "x / u"] upos by (intro mult_right_mono) simp_all
  also have "1 / 2 * u = 2 powi (ilog2 x) / 2 ^ 53"
    by (simp add: u_def power_int_diff)
  also have "\<dots> \<le> x / 2 ^ 53"
    using ilog2_bounds(1) [OF pos] by (intro divide_right_mono) simp_all
  finally show ?thesis .
qed

lemma double_rounding_close:
  assumes x: "1 / 2 ^ 32 \<le> x" "x \<le> 1"
  shows "\<bar>fl64 (fl64 x * 100) - 100 * x\<bar> \<le> 1 / 2 ^ 44"
proof -
  have xpos: "0 < x" using x(1) by (rule less_le_trans [rotated]) simp
  have "(2::rat) powi (- 1022) \<le> 1 / 2 ^ 32"
    by (simp add: power_int_def field_simps)
  with x(1) have n1: "2 powi (- 1022) \<le> x" by simp
  define c :: rat where "c = 1 / 2 ^ 53"
  have c44: "300 * c \<le> 1 / 2 ^ 44" by (simp add: c_def)
  have cpos: "0 \<le> c" "c \<le> 1 / 2" by (simp_all add: c_def)
  have err: "\<And>z. 2 powi (- 1022) \<le> z \<Longrightarrow> \<bar>fl64 z - z\<bar> \<le> z * c"
    using fl64_err by (simp add: c_def)
  from err [OF n1] have e1: "\<bar>fl64 x - x\<bar> \<le> x * c" .
  have xc: "x * c \<le> c" "x * c \<le> x * (1 / 2)"
    using x(2) xpos cpos by (simp_all add: mult_left_le_one_le mult_left_mono)
  from e1 have lo1: "x - x * c \<le> fl64 x" and hi1: "fl64 x \<le> x + x * c"
    by (simp_all add: abs_le_iff)
  from lo1 xc(2) have half: "x / 2 \<le> fl64 x" by simp
  have "(2::rat) powi (- 1022) \<le> (1 / 2 ^ 32) / 2 * 100"
    by (simp add: power_int_def field_simps)
  also have "\<dots> \<le> fl64 x * 100" using half x(1) by simp
  finally have n2: "2 powi (- 1022) \<le> fl64 x * 100" .
  from err [OF n2] have e2: "\<bar>fl64 (fl64 x * 100) - fl64 x * 100\<bar> \<le> fl64 x * 100 * c" .
  have "fl64 x \<le> 2" using hi1 x(2) xc(1) cpos by linarith
  then have "fl64 x * 100 * c \<le> 2 * 100 * c"
    using cpos by (intro mult_right_mono) simp_all
  also have "2 * 100 * c = 200 * c" by simp
  finally have "fl64 x * 100 * c \<le> 200 * c" .
  with e2 have b2: "\<bar>fl64 (fl64 x * 100) - fl64 x * 100\<bar> \<le> 200 * c"
    by (rule order_trans)
  from e1 xc(1) have b1: "\<bar>fl64 x - x\<bar> \<le> c" by simp
  have "\<bar>fl64 (fl64 x * 100) - 100 * x\<bar> \<le> 300 * c"
    using b1 b2 by linarith
  with c44 show ?thesis by simp
qed

lemma percent_nearest:
  fixes k n :: nat
  assumes n: "0 < n" "n < 2 ^ 32" and k: "k \<le> n"
  shows "\<bar>of_int (Math_round (fl64 (fl64 (of_nat k / of_nat n) * 100))) - 100 * of_nat k / of_nat n\<bar>
           \<le> (1 / 2 :: rat)"
proof (cases "k = 0")
  case True
  have "\<lfloor>(1::rat) / 2\<rfloor> = 0" by linarith
  with True show ?thesis by (simp add: fl64_def Math_round_def)
next
  case False
  define x :: rat where "x = of_nat k / of_nat n"
  define y where "y = fl64 (fl64 x * 100)"
  define q where "q = Math_round y"
  have npos: "(0::rat) < of_nat n" using n(1) by simp
  have nlt: "(of_nat n :: rat) < 2 ^ 32" using n(2) by (metis of_nat_less_iff of_nat_numeral of_nat_power)
  have "1 / 2 ^ 32 \<le> 1 / (of_nat n :: rat)"
    using npos nlt by (intro divide_left_mono) simp_all
  also have "\<dots> \<le> x" unfolding x_def using False npos by (intro divide_right_mono) simp_all
  finally have x1: "1 / 2 ^ 32 \<le> x" .
  have x2: "x \<le> 1" unfolding x_def using k npos by (simp add: field_simps)
  define d :: rat where "d = 1 / 2 ^ 44"
  from double_rounding_close [OF x1 x2] have close: "\<bar>y - 100 * x\<bar> \<le> d"
    by (simp add: y_def d_def)
  then have cl: "y - 100 * x \<le> d" "100 * x - y \<le> d" by (simp_all add: abs_le_iff)
  have fl: "of_int q \<le> y + 1 / 2" "y + 1 / 2 < of_int q + 1"
    unfolding q_def Math_round_def by linarith+
  define m :: int where "m = 2 * int n * q - 200 * int k"
  have mx: "(of_int m :: rat) = 2 * of_nat n * (of_int q - 100 * x)"
    using npos by (simp add: m_def x_def field_simps)
  have "2 * (of_nat n :: rat) * d < 2 * 2 ^ 32 * d"
    using nlt by (intro mult_strict_right_mono mult_strict_left_mono) (simp_all add: d_def)
  also have "\<dots> \<le> 1" by (simp add: d_def)
  finally have small: "2 * (of_nat n :: rat) * d < 1" .
  have "of_int q - 100 * x \<le> 1 / 2 + d" using fl(1) cl by linarith
  then have "2 * of_nat n * (of_int q - 100 * x) \<le> 2 * of_nat n * (1 / 2 + d)"
    using npos by (intro mult_left_mono) simp_all
  also have "\<dots> = of_nat n + 2 * of_nat n * d" by (simp add: algebra_simps)
  also have "\<dots> < of_nat n + 1" using small by simp
  finally have "(of_int m :: rat) < of_int (int n + 1)" by (simp add: mx)
  then have "m < int n + 1" by (simp only: of_int_less_iff)
  then have "m \<le> int n" by simp
  then have "(of_int m :: rat) \<le> of_int (int n)" by (simp only: of_int_le_iff)
  then have "2 * of_nat n * (of_int q - 100 * x) \<le> 2 * of_nat n * (1 / 2 :: rat)"
    by (simp add: mx)
  then have up: "of_int q - 100 * x \<le> 1 / 2"
    using npos by (simp only: mult_le_cancel_left_pos mult_pos_pos zero_less_numeral)
  have "- (1 / 2 + d) < of_int q - 100 * x" using fl(2) cl by linarith
  then have "2 * of_nat n * (- (1 / 2 + d)) < 2 * of_nat n * (of_int q - 100 * x)"
    using npos by (intro mult_strict_left_mono) simp_all
  moreover have "2 * of_nat n * (- (1 / 2 + d)) = - of_nat n - 2 * of_nat n * d"
    by (simp add: algebra_simps)
  moreover have "- of_nat n - 1 < - of_nat n - 2 * (of_nat n :: rat) * d" using small by simp
  ultimately have "(of_int (- int n - 1) :: rat) < of_int m" by (simp add: mx)
  then have "- int n - 1 < m" by (simp only: of_int_less_iff)
  then have "- int n \<le> m" by simp
  then have "(of_int (- int n) :: rat) \<le> of_int m" by (simp only: of_int_le_iff)
  then have "2 * of_nat n * (- (1 / 2) :: rat) \<le> 2 * of_nat n * (of_int q - 100 * x)"
    by (simp add: mx)
  then have dn: "- (1 / 2) \<le> of_int q - 100 * x"
    using npos by (simp only: mult_le_cancel_left_pos mult_pos_pos zero_less_numeral)
  from up dn have F: "\<bar>of_int q - 100 * x\<bar> \<le> 1 / 2" by linarith
  have eq: "100 * of_nat k / of_nat n = 100 * x" by (simp add: x_def)
  show ?thesis unfolding eq using F by (simp only: q_def y_def x_def)
qed

section \<open>The aggregates of the dataset\<close>

lemma countUp_other: "defectLabel item \<noteq> t \<Longrightarrow> countUp acc item t = acc t"
  by (simp add: countUp_def Let_def)

lemma countUp_proto: "countUp acc item ''__proto__'' = acc ''__proto__''"
  by (simp add: countUp_def Let_def)

lemma countUp_same:
  "t \<noteq> ''__proto__'' \<Longrightarrow> defectLabel item = t \<Longrightarrow>
   countUp acc item t =
     Some (case acc t of
             Some (Count n) \<Rightarrow> Count (n + 1)
           | Some Garbled \<Rightarrow> Garbled
           | None \<Rightarrow> (if t \<in> set inheritedNames then Garbled else Count 1))"
  by (simp add: countUp_def Let_def)

lemma countUp_fold:
  "foldl countUp acc items t =
     (if t = ''__proto__'' \<or> filter (\<lambda>i. defectLabel i = t) items = [] then acc t
      else Some (case acc t of
                   Some (Count n) \<Rightarrow> Count (n + length (filter (\<lambda>i. defectLabel i = t) items))
                 | Some Garbled \<Rightarrow> Garbled
                 | None \<Rightarrow>
                     (if t \<in> set inheritedNames then Garbled
                      else Count (length (filter (\<lambda>i. defectLabel i = t) items)))))"
proof (induction items arbitrary: acc)
  case Nil
  then show ?case by simp
next
  case (Cons x xs)
  let ?k = "length (filter (\<lambda>i. defectLabel i = t) xs)"
  note IH = Cons.IH [of "countUp acc x"]
  show ?case
  proof (cases "t = ''__proto__''")
    case True
    then show ?thesis using IH by (simp add: countUp_proto)
  next
    case np: False
    show ?thesis
    proof (cases "defectLabel x = t")
      case False
      then have f: "filter (\<lambda>i. defectLabel i = t) (x # xs) = filter (\<lambda>i. defectLabel i = t) xs"
        by simp
      have "foldl countUp acc (x # xs) t = foldl countUp (countUp acc x) xs t" by simp
      then show ?thesis unfolding f using IH by (simp only: countUp_other [OF False])
    next
      case True
      then have f: "filter (\<lambda>i. defectLabel i = t) (x # xs) = x # filter (\<lambda>i. defectLabel i = t) xs"
        by simp
      have l: "length (x # filter (\<lambda>i. defectLabel i = t) xs) = Suc ?k" by simp
      have ne: "x # filter (\<lambda>i. defectLabel i = t) xs \<noteq> []" by simp
      have st: "foldl countUp acc (x # xs) t = foldl countUp (countUp acc x) xs t" by simp
      have k0: "filter (\<lambda>i. defectLabel i = t) xs = [] \<longleftrightarrow> ?k = 0" by simp
      show ?thesis
        unfolding f st IH countUp_same [OF np True]
        by (cases "acc t"; cases "the (acc t)")
           (simp_all add: np k0 del: length_0_conv length_greater_0_conv)
    qed
  qed
qed

lemma defectCounts_histogram:
  "defectCounts items t =
     (if t = ''__proto__'' \<or> filter (\<lambda>i. defectLabel i = t) items = [] then None
      else if t \<in> set inheritedNames then Some Garbled
      else Some (Count (length (filter (\<lambda>i. defectLabel i = t) items))))"
  by (simp add: defectCounts_def countUp_fold)

lemma passes_iff_approved: "itemOK i \<Longrightarrow> passesQuality i \<longleftrightarrow> status i = Approved"
  by (auto simp: itemOK_def passesQuality_def split: option.splits)

lemma stored_pass_count:
  "filter passesQuality (capturedItems (stored saves)) =
   filter (\<lambda>i. status i = Approved) (capturedItems (stored saves))"
  by (rule filter_cong) (auto simp: passes_iff_approved stored_items_ok)

lemma qualityPercentage_nearest:
  assumes "0 < length items" "length items < 2 ^ 32"
  shows "\<bar>of_int (qualityPercentage items) -
          100 * of_nat (length (filter passesQuality items)) / of_nat (length items)\<bar>
           \<le> (1 / 2 :: rat)"
  using percent_nearest [OF assms, of "length (filter passesQuality items)"]
  by (simp add: qualityPercentage_def assms(1))

lemma two_of_three:
  assumes "length items = 3" "length (filter passesQuality items) = 2"
  shows "qualityPercentage items = 67"
proof -
  have "0 < length items" "length items < 2 ^ 32" using assms(1) by simp_all
  from qualityPercentage_nearest [OF this]
  have "\<bar>of_int (qualityPercentage items) - 100 * 2 / (3::rat)\<bar> \<le> 1 / 2"
    by (simp add: assms)
  then have "(of_int (qualityPercentage items) :: rat) < 68"
    and "(66 :: rat) < of_int (qualityPercentage items)"
    by linarith+
  then have "qualityPercentage items < 68" "66 < qualityPercentage items"
    by simp_all
  then show ?thesis by simp
qed

text \<open>
  A share that lies halfway between two integers can go either way: 29 of 200 is 14.5
  percent, the double product is just below it, and the percentage shown is 14.
\<close>

lemma tie_rounds_down: "Math_round (fl64 (fl64 (29 / 200) * 100)) = 14"
  by code_simp

text \<open>
  C5. For the items shown by \<open>DataView\<close> (the total it displays is \<open>items.length\<close>):
  the histogram has no entry for a label no item carries and maps a label some item
  carries to the number of items carrying it, unless the label names a property of
  \<open>Object.prototype\<close>: for \<open>__proto__\<close> there is no entry, and for the other such names
  the entry is a string, not a count. The pending count is the number of items with status
  \<open>pending\<close>, 0 for no items; the quality percentage is 0 for no items and otherwise an
  integer within one half of 100 times the share of items whose analysis passes the
  quality check, so 67 when 2 of 3 pass. In a store filled through \<open>handleSave\<close> the items
  that pass are exactly the approved ones, so there the percentage is the approved share
  rounded to a nearest integer.
\<close>

theorem dataset_aggregate:
  "(\<forall>t. defectCounts items t =
         (if t = ''__proto__'' \<or> filter (\<lambda>i. defectLabel i = t) items = [] then None
          else if t \<in> set inheritedNames then Some Garbled
          else Some (Count (length (filter (\<lambda>i. defectLabel i = t) items))))) \<and>
   pendingCount items = length (filter (\<lambda>i. status i = Pending) items) \<and>
   pendingCount [] = 0 \<and> qualityPercentage [] = 0 \<and>
   (0 < length items \<and> length items < 2 ^ 32 \<longrightarrow>
      \<bar>of_int (qualityPercentage items) -
        100 * of_nat (length (filter passesQuality items)) / of_nat (length items)\<bar>
        \<le> (1 / 2 :: rat)) \<and>
   (length items = 3 \<and> length (filter passesQuality items) = 2 \<longrightarrow>
      qualityPercentage items = 67) \<and>
   (0 < length (capturedItems (stored saves)) \<and> length (capturedItems (stored saves)) < 2 ^ 32 \<longrightarrow>
      \<bar>of_int (qualityPercentage (capturedItems (stored saves))) -
        100 * of_nat (length (filter (\<lambda>i. status i = Approved) (capturedItems (stored saves)))) /
          of_nat (length (capturedItems (stored saves)))\<bar>
        \<le> (1 / 2 :: rat))"
proof (intro conjI)
  show "\<forall>t. defectCounts items t =
         (if t = ''__proto__'' \<or> filter (\<lambda>i. defectLabel i = t) items = [] then None
          else if t \<in> set inheritedNames then Some Garbled
          else Some (Count (length (filter (\<lambda>i. defectLabel i = t) items))))"
    using defectCounts_histogram by blast
  show "pendingCount items = length (filter (\<lambda>i. status i = Pending) items)"
    by (simp add: pendingCount_def)
  show "pendingCount [] = 0" by (simp add: pendingCount_def)
  show "qualityPercentage [] = 0" by (simp add: qualityPercentage_def)
  show "0 < length items \<and> length items < 2 ^ 32 \<longrightarrow>
      \<bar>of_int (qualityPercentage items) -
        100 * of_nat (length (filter passesQuality items)) / of_nat (length items)\<bar>
        \<le> (1 / 2 :: rat)"
    using qualityPercentage_nearest by blast
  show "length items = 3 \<and> length (filter passesQuality items) = 2 \<longrightarrow>
      qualityPercentage items = 67"
    using two_of_three by blast
  show "0 < length (capturedItems (stored saves)) \<and> length (capturedItems (stored saves)) < 2 ^ 32 \<longrightarrow>
      \<bar>of_int (qualityPercentage (capturedItems (stored saves))) -
        100 * of_nat (length (filter (\<lambda>i. status i = Approved) (capturedItems (stored saves)))) /
          of_nat (length (capturedItems (stored saves)))\<bar>
        \<le> (1 / 2 :: rat)"
    using qualityPercentage_nearest [of "capturedItems (stored saves)"]
    by (simp only: stored_pass_count) blast
qed

theorem dataset_aggregate_witness:
  "length (capturedItems (stored sampleSaves3)) = 3 \<and>
   length (filter (\<lambda>i. status i = Approved) (capturedItems (stored sampleSaves3))) = 2 \<and>
   qualityPercentage (capturedItems (stored sampleSaves3)) = 67 \<and>
   pendingCount (capturedItems (stored sampleSaves3)) = 1 \<and>
   defectCounts (capturedItems (stored sampleSaves3)) ''Surface Rust'' = Some (Count 2) \<and>
   defectCounts (capturedItems (stored sampleSaves3)) ''Crack'' = Some (Count 1) \<and>
   defectCounts (capturedItems (stored sampleSaves3)) ''None'' = None \<and>
   length (filter (\<lambda>i. defectLabel i = ''constructor'') (capturedItems (stored oddSaves))) = 2 \<and>
   defectCounts (capturedItems (stored oddSaves)) ''constructor'' = Some Garbled \<and>
   length (filter (\<lambda>i. defectLabel i = ''__proto__'') (capturedItems (stored oddSaves))) = 1 \<and>
   defectCounts (capturedItems (stored oddSaves)) ''__proto__'' = None"
proof -
  have len: "length (capturedItems (stored sampleSaves3)) = 3" by code_simp
  have app: "length (filter (\<lambda>i. status i = Approved) (capturedItems (stored sampleSaves3))) = 2"
    by code_simp
  have pas: "length (filter passesQuality (capturedItems (stored sampleSaves3))) = 2"
    by code_simp
  have pen: "length (filter (\<lambda>i. status i = Pending) (capturedItems (stored sampleSaves3))) = 1"
    by code_simp
  have r: "length (filter (\<lambda>i. defectLabel i = ''Surface Rust'') (capturedItems (stored sampleSaves3))) = 2"
    by code_simp
  have c: "length (filter (\<lambda>i. defectLabel i = ''Crack'') (capturedItems (stored sampleSaves3))) = 1"
    by code_simp
  have n: "filter (\<lambda>i. defectLabel i = ''None'') (capturedItems (stored sampleSaves3)) = []"
    by code_simp
  have k: "length (filter (\<lambda>i. defectLabel i = ''constructor'') (capturedItems (stored oddSaves))) = 2"
    by code_simp
  have u: "length (filter (\<lambda>i. defectLabel i = ''__proto__'') (capturedItems (stored oddSaves))) = 1"
    by code_simp
  have names: "''Surface Rust'' \<notin> set inheritedNames" "''Crack'' \<notin> set inheritedNames"
    "''constructor'' \<in> set inheritedNames"
    by (simp_all add: inheritedNames_def)
  note agg = dataset_aggregate [of "capturedItems (stored sampleSaves3)" sampleSaves3]
  note odd = dataset_aggregate [of "capturedItems (stored oddSaves)" oddSaves]
  from agg len pas have "qualityPercentage (capturedItems (stored sampleSaves3)) = 67" by blast
  moreover from agg pen have "pendingCount (capturedItems (stored sampleSaves3)) = 1" by simp
  moreover from agg have h: "\<And>t. defectCounts (capturedItems (stored sampleSaves3)) t =
         (if t = ''__proto__'' \<or>
             filter (\<lambda>i. defectLabel i = t) (capturedItems (stored sampleSaves3)) = [] then None
          else if t \<in> set inheritedNames then Some Garbled
          else Some (Count (length (filter (\<lambda>i. defectLabel i = t)
                 (capturedItems (stored sampleSaves3))))))"
    by blast
  from odd have g: "\<And>t. defectCounts (capturedItems (stored oddSaves)) t =
         (if t = ''__proto__'' \<or>
             filter (\<lambda>i. defectLabel i = t) (capturedItems (stored oddSaves)) = [] then None
          else if t \<in> set inheritedNames then Some Garbled
          else Some (Count (length (filter (\<lambda>i. defectLabel i = t)
                 (capturedItems (stored oddSaves))))))"
    by blast
  from r have rn: "filter (\<lambda>i. defectLabel i = ''Surface Rust'') (capturedItems (stored sampleSaves3)) \<noteq> []"
    by force
  from c have cn: "filter (\<lambda>i. defectLabel i = ''Crack'') (capturedItems (stored sampleSaves3)) \<noteq> []"
    by force
  from k have kn: "filter (\<lambda>i. defectLabel i = ''constructor'') (capturedItems (stored oddSaves)) \<noteq> []"
    by force
  have "defectCounts (capturedItems (stored sampleSaves3)) ''Surface Rust'' = Some (Count 2)"
    using rn names(1) by (subst h) (simp add: r)
  moreover have "defectCounts (capturedItems (stored sampleSaves3)) ''Crack'' = Some (Count 1)"
    using cn names(2) by (subst h) (simp add: c)
  moreover have "defectCounts (capturedItems (stored sampleSaves3)) ''None'' = None"
    using n by (subst h) simp
  moreover have "defectCounts (capturedItems (stored oddSaves)) ''constructor'' = Some Garbled"
    using kn names(3) by (subst g) simp
  moreover have "defectCounts (capturedItems (stored oddSaves)) ''__proto__'' = None"
    by (subst g) simp
  ultimately show ?thesis using len app k u by blast
qed

section \<open>The chat log\<close>

lemma answered_snoc_ai: "answered ms \<Longrightarrow> sender m = Ai \<Longrightarrow> answered (ms @ [m])"
  by (induction ms rule: answered.induct) auto

lemma answered_snoc2: "answered ms \<Longrightarrow> sender m' = Ai \<Longrightarrow> answered (ms @ [m, m'])"
  by (induction ms rule: answered.induct) auto

lemma send_unguarded:
  "trim (input p) \<noteq> [] \<Longrightarrow>
   awaiting (handleSend u n r p) = awaiting p @ [(messages p, input p)] \<and>
   messages (handleSend u n r p) = messages p @ [\<lparr>msg_id = u, sender = User, role = r, msg_text = input p, msg_timestamp = n\<rparr>]"
  by (simp add: handleSend_def Let_def)

lemma turn_effect:
  assumes "awaiting p = []"
  shows "awaiting (turn p t) = [] \<and>
     (if trim (typed t) = [] then messages (turn p t) = messages p
      else messages (turn p t) = messages p @
         [\<lparr>msg_id = sendId t, sender = User, role = sendRole t, msg_text = typed t, msg_timestamp = sendTime t\<rparr>,
          \<lparr>msg_id = replyId t, sender = Ai, role = ''System'', msg_text = replyText t, msg_timestamp = replyTime t\<rparr>])"
  using assms by (simp add: turn_def handleSend_def handleSend_resume_def setInput_def Let_def)

lemma turns_answered:
  "awaiting p = [] \<Longrightarrow> answered (messages p) \<Longrightarrow>
   awaiting (foldl turn p ts) = [] \<and> answered (messages (foldl turn p ts))"
proof (induction ts rule: rev_induct)
  case Nil
  then show ?case by simp
next
  case (snoc t ts)
  then have a: "awaiting (foldl turn p ts) = []" and b: "answered (messages (foldl turn p ts))" by simp_all
  from turn_effect[OF a, of t] b show ?case
    by (cases "trim (typed t) = []") (simp_all add: answered_snoc2)
qed

text \<open>
  C7 as stated: the panel never has two requests outstanding, and every user message in
  the log is immediately followed by its reply. Two sends in a row, before the first
  reply arrives, give two outstanding requests and a log in which the first user message
  is followed by the second.
\<close>

theorem chat_overlapping_sends:
  "length (awaiting overlapped) = 2 \<and> awaiting overlappedDone = [] \<and>
   \<not> answered (messages overlappedDone) \<and>
   map msg_text (tl (messages overlappedDone)) =
     map ascii [''first'', ''second'', ''reply to first'', ''reply to second'']"
  by code_simp

text \<open>
  C7, amended. \<open>handleSend\<close> has no guard on a pending reply: whenever the input is not
  blank, that is, holds a character that is neither white space nor a line terminator, it
  appends the user message and fires its request at once, adding it to the outstanding
  ones; a blank input is ignored. When every send
  is made with no request outstanding and its reply arrives before the next send, the
  user message and its reply are appended one after the other, no request is left
  outstanding after a turn, at most one is outstanding within a turn, and in the log every
  user message is immediately followed by a reply.
\<close>

theorem chat_turns:
  "(trim (input p) = [] \<longrightarrow> handleSend u n r p = p) \<and>
   (trim (input p) \<noteq> [] \<longrightarrow>
      awaiting (handleSend u n r p) = awaiting p @ [(messages p, input p)] \<and>
      messages (handleSend u n r p) = messages p @
        [\<lparr>msg_id = u, sender = User, role = r, msg_text = input p, msg_timestamp = n\<rparr>]) \<and>
   (awaiting p = [] \<and> trim (typed t) \<noteq> [] \<longrightarrow>
      messages (turn p t) = messages p @
        [\<lparr>msg_id = sendId t, sender = User, role = sendRole t, msg_text = typed t,
          msg_timestamp = sendTime t\<rparr>,
         \<lparr>msg_id = replyId t, sender = Ai, role = ''System'', msg_text = replyText t,
          msg_timestamp = replyTime t\<rparr>]) \<and>
   (awaiting p = [] \<and> answered (messages p) \<longrightarrow>
      awaiting (foldl turn p ts) = [] \<and> answered (messages (foldl turn p ts)) \<and>
      length (awaiting (handleSend u n r (foldl turn p ts))) \<le> 1)"
proof (intro conjI impI)
  assume "trim (input p) = []"
  then show "handleSend u n r p = p" by (simp add: handleSend_def)
next
  assume "trim (input p) \<noteq> []"
  then show "awaiting (handleSend u n r p) = awaiting p @ [(messages p, input p)]"
    by (simp add: send_unguarded)
next
  assume "trim (input p) \<noteq> []"
  then show "messages (handleSend u n r p) = messages p @
        [\<lparr>msg_id = u, sender = User, role = r, msg_text = input p, msg_timestamp = n\<rparr>]"
    by (simp add: send_unguarded)
next
  assume "awaiting p = [] \<and> trim (typed t) \<noteq> []"
  then show "messages (turn p t) = messages p @
        [\<lparr>msg_id = sendId t, sender = User, role = sendRole t, msg_text = typed t,
          msg_timestamp = sendTime t\<rparr>,
         \<lparr>msg_id = replyId t, sender = Ai, role = ''System'', msg_text = replyText t,
          msg_timestamp = replyTime t\<rparr>]"
    using turn_effect [of p t] by simp
next
  assume a: "awaiting p = [] \<and> answered (messages p)"
  then show "awaiting (foldl turn p ts) = []" using turns_answered by blast
  from a show "answered (messages (foldl turn p ts))" using turns_answered by blast
  from a have "awaiting (foldl turn p ts) = []" using turns_answered by blast
  then show "length (awaiting (handleSend u n r (foldl turn p ts))) \<le> 1"
    by (simp add: handleSend_def Let_def)
qed

theorem chat_turns_witness:
  "awaiting (initialChat 0) = [] \<and> answered (messages (initialChat 0)) \<and>
   awaiting (foldl turn (initialChat 0) sampleTurns) = [] \<and>
   answered (messages (foldl turn (initialChat 0) sampleTurns)) \<and>
   map msg_text (tl (messages (foldl turn (initialChat 0) sampleTurns))) =
     map ascii [''first'', ''reply to first'', ''second'', ''reply to second''] \<and>
   trim (ascii ''first'') = ascii ''first'' \<and>
   awaiting (handleSend ''u1'' 10 ''Field Engineer'' (setInput (ascii ''first'') (initialChat 0))) =
     [(messages (initialChat 0), ascii ''first'')] \<and>
   map msg_text (tl (messages (turn (initialChat 0) (hd sampleTurns)))) =
     map ascii [''first'', ''reply to first''] \<and>
   trim [0xA0, 0x3000, 0xFEFF] = [] \<and>
   handleSend ''u9'' 50 ''Field Engineer'' (setInput [0xA0, 0x3000, 0xFEFF] (initialChat 0)) =
     setInput [0xA0, 0x3000, 0xFEFF] (initialChat 0)"
proof -
  have a: "awaiting (initialChat 0) = [] \<and> answered (messages (initialChat 0))"
    by (simp add: initialChat_def)
  have m: "map msg_text (tl (messages (foldl turn (initialChat 0) sampleTurns))) =
     map ascii [''first'', ''reply to first'', ''second'', ''reply to second'']"
    by code_simp
  have f: "trim (ascii ''first'') = ascii ''first''" by code_simp
  have fi: "input (setInput (ascii ''first'') (initialChat 0)) = ascii ''first''"
    "messages (setInput (ascii ''first'') (initialChat 0)) = messages (initialChat 0)"
    "awaiting (setInput (ascii ''first'') (initialChat 0)) = []"
    by (simp_all add: setInput_def initialChat_def)
  have fn: "trim (input (setInput (ascii ''first'') (initialChat 0))) \<noteq> []"
    unfolding fi f by code_simp
  have t1: "typed (hd sampleTurns) = ascii ''first''"
    "replyText (hd sampleTurns) = ascii ''reply to first''"
    by (simp_all add: sampleTurns_def)
  have tn: "trim (typed (hd sampleTurns)) \<noteq> []" unfolding t1 f by code_simp
  have b: "trim [0xA0, 0x3000, 0xFEFF] = []"
    by (simp add: trim_def isWhitespace_def)
  have bi: "trim (input (setInput [0xA0, 0x3000, 0xFEFF] (initialChat 0))) = []"
    using b by (simp add: setInput_def)
  from chat_turns [of "initialChat 0" "''u''" 0 "''Field Engineer''" "hd sampleTurns" sampleTurns] a tn
  have 1: "awaiting (foldl turn (initialChat 0) sampleTurns) = [] \<and>
        answered (messages (foldl turn (initialChat 0) sampleTurns))"
    and 2: "messages (turn (initialChat 0) (hd sampleTurns)) = messages (initialChat 0) @
        [\<lparr>msg_id = sendId (hd sampleTurns), sender = User, role = sendRole (hd sampleTurns),
          msg_text = typed (hd sampleTurns), msg_timestamp = sendTime (hd sampleTurns)\<rparr>,
         \<lparr>msg_id = replyId (hd sampleTurns), sender = Ai, role = ''System'',
          msg_text = replyText (hd sampleTurns), msg_timestamp = replyTime (hd sampleTurns)\<rparr>]"
    by blast+
  from 2 have 3: "map msg_text (tl (messages (turn (initialChat 0) (hd sampleTurns)))) =
     map ascii [''first'', ''reply to first'']"
    by (simp add: t1 initialChat_def)
  from chat_turns [of "setInput (ascii ''first'') (initialChat 0)" "''u1''" 10 "''Field Engineer''"
      "hd sampleTurns" sampleTurns] fn
  have 4: "awaiting (handleSend ''u1'' 10 ''Field Engineer'' (setInput (ascii ''first'') (initialChat 0))) =
     [(messages (initialChat 0), ascii ''first'')]"
    by (simp add: fi)
  from chat_turns [of "setInput [0xA0, 0x3000, 0xFEFF] (initialChat 0)" "''u9''" 50
      "''Field Engineer''" "hd sampleTurns" sampleTurns] bi
  have 5: "handleSend ''u9'' 50 ''Field Engineer'' (setInput [0xA0, 0x3000, 0xFEFF] (initialChat 0)) =
     setInput [0xA0, 0x3000, 0xFEFF] (initialChat 0)"
    by blast
  from a 1 m f 4 3 b 5 show ?thesis by blast
qed

section \<open>The cadence of the guidance scanner\<close>



















end
